theory Spec2Isabelle
  imports Complex_Main "HOL-Library.Sublist"
begin

text \<open>
  A model of the autonomous agent of War of the Pixels (\<^verbatim>\<open>src/agent/autonomous_agent.py\<close>):
  the class \<^verbatim>\<open>PixelWarAgent\<close> with its remote client, its four strategies and its main
  loop. The remote service and the random source are parameters of the model; what the agent
  does to the outside world is recorded in a trace.
\<close>

section \<open>Values exchanged with the remote service\<close>

text \<open>
  \<^verbatim>\<open>response.json()\<close> yields an arbitrary decoded JSON document. Python's \<^verbatim>\<open>None\<close> is the
  decoding of the JSON literal \<^verbatim>\<open>null\<close>, so \<open>JNull\<close> stands for both. A number with a
  fraction or an exponent decodes to a float, kept here as the rational it denotes.
\<close>

datatype json =
    JNull
  | JBool bool
  | JInt int
  | JFloat rat
  | JStr string
  | JArr "json list"
  | JObj "(string \<times> json) list"

text \<open>
  The exceptions that can occur. \<open>KeyboardInterrupt\<close> and \<open>CancelledError\<close> derive from
  \<^verbatim>\<open>BaseException\<close> only, so a handler \<^verbatim>\<open>except Exception\<close> lets them through.
\<close>

datatype exn =
    HTTPError
  | JSONDecodeError
  | KeyError string
  | IndexError
  | ValueError
  | TypeError
  | AttributeError
  | KeyboardInterrupt
  | CancelledError

fun is_Exception :: "exn \<Rightarrow> bool" where
  "is_Exception KeyboardInterrupt = False"
| "is_Exception CancelledError = False"
| "is_Exception _ = True"

text \<open>The body of a paint request; the \<^verbatim>\<open>message\<close> key is optional.\<close>

record payload =
  p_x :: int
  p_y :: int
  p_color :: string
  p_source :: string
  p_message :: "string option"

text \<open>
  What the agent does to the outside world, in order: HTTP requests, pacing delays (in
  milliseconds) and the iteration banner of the main loop. The other log lines are not
  recorded.
\<close>

datatype event =
    Post string payload
  | Get string
  | Sleep nat
  | Iteration int

text \<open>
  The answer to one HTTP request: a response with its status code and its body decoded as
  JSON (\<open>None\<close> when the body is not JSON, where \<^verbatim>\<open>response.json()\<close> raises), or an
  exception raised while awaiting the call.
\<close>

datatype reply =
    Resp int "json option"
  | Fail exn

text \<open>
  The environment of a run: the remote service answers a request knowing everything that
  happened so far (the last event of the history is the request itself), and the random
  source delivers its n-th raw draw.
\<close>

record env =
  service :: "event list \<Rightarrow> reply"
  rand :: "nat \<Rightarrow> nat"

section \<open>The agent\<close>

definition BOARD_SIZE :: int where
  "BOARD_SIZE = 100"

record agent =
  name :: string
  my_pixels :: "(int \<times> int) set"
  colors :: "string list"
  trace :: "event list"
  draws :: nat

definition init :: "string \<Rightarrow> agent" where
  "init nm =
     \<lparr> name = nm,
       my_pixels = {},
       colors = [''#FF0000'', ''#FF6B6B'', ''#00FF00'', ''#48DBFB'',
                 ''#9B59B6'', ''#E91E63'', ''#FF9500'', ''#0066FF''],
       trace = [],
       draws = 0 \<rparr>"

text \<open>
  Every operation takes the agent and returns it updated, with either the exception that
  left the operation (\<open>Inl\<close>) or its return value (\<open>Inr\<close>).
\<close>

definition and_then ::
  "agent \<times> (exn + 'a) \<Rightarrow> (agent \<Rightarrow> 'a \<Rightarrow> agent \<times> (exn + 'b)) \<Rightarrow> agent \<times> (exn + 'b)" where
  "and_then m f = (case m of (st, Inl e) \<Rightarrow> (st, Inl e) | (st, Inr v) \<Rightarrow> f st v)"

definition emit :: "event \<Rightarrow> agent \<Rightarrow> agent" where
  "emit ev st = st\<lparr>trace := trace st @ [ev]\<rparr>"

definition sleep :: "nat \<Rightarrow> agent \<Rightarrow> agent" where
  "sleep ms st = emit (Sleep ms) st"

subsection \<open>Remote client\<close>

definition paint_pixel ::
  "env \<Rightarrow> agent \<Rightarrow> int \<Rightarrow> int \<Rightarrow> string \<Rightarrow> string option \<Rightarrow> agent \<times> (exn + bool)" where
  "paint_pixel e st x y color message =
     (let body = \<lparr> p_x = x, p_y = y, p_color = color,
                   p_source = ''AI_AGENT:'' @ name st,
                   p_message = (if message = Some [] then None else message) \<rparr>;
          st1 = emit (Post ''/api/paint'' body) st
      in case service e (trace st1) of
           Resp status_code _ \<Rightarrow>
             if status_code = 200
             then (st1\<lparr>my_pixels := insert (x, y) (my_pixels st1)\<rparr>, Inr True)
             else (st1, Inr False)
         | Fail ex \<Rightarrow>
             if is_Exception ex then (st1, Inr False) else (st1, Inl ex))"

definition get_board_state :: "env \<Rightarrow> agent \<Rightarrow> agent \<times> (exn + json)" where
  "get_board_state e st =
     (let st1 = emit (Get ''/api/board'') st
      in case service e (trace st1) of
           Resp _ (Some doc) \<Rightarrow> (st1, Inr doc)
         | Resp _ None \<Rightarrow> (st1, Inr JNull)
         | Fail ex \<Rightarrow> if is_Exception ex then (st1, Inr JNull) else (st1, Inl ex))"

definition get_recent_events :: "env \<Rightarrow> agent \<Rightarrow> agent \<times> (exn + json)" where
  "get_recent_events e st =
     (let st1 = emit (Get ''/api/events/recent'') st
      in case service e (trace st1) of
           Resp _ (Some doc) \<Rightarrow> (st1, Inr doc)
         | Resp _ None \<Rightarrow> (st1, Inr (JArr []))
         | Fail ex \<Rightarrow> if is_Exception ex then (st1, Inr (JArr [])) else (st1, Inl ex))"

subsection \<open>Pattern library\<close>

definition patterns :: "(string \<times> (int \<times> int) list) list" where
  "patterns =
     [ (''square'',
          [(0, 0), (1, 0), (2, 0),
           (0, 1),         (2, 1),
           (0, 2), (1, 2), (2, 2)]),
       (''cross'',
          [        (1, 0),
           (0, 1), (1, 1), (2, 1),
                   (1, 2)]),
       (''heart'',
          [        (1, 0), (2, 0),         (4, 0), (5, 0),
           (0, 1), (1, 1), (2, 1), (3, 1), (4, 1), (5, 1), (6, 1),
           (0, 2), (1, 2), (2, 2), (3, 2), (4, 2), (5, 2), (6, 2),
                   (1, 3), (2, 3), (3, 3), (4, 3), (5, 3),
                           (2, 4), (3, 4), (4, 4),
                                   (3, 5)]) ]"

subsection \<open>Python operations on decoded JSON\<close>

text \<open>Truth value of a document, as \<^verbatim>\<open>if board:\<close> tests it.\<close>

fun truthy :: "json \<Rightarrow> bool" where
  "truthy JNull = False"
| "truthy (JBool b) = b"
| "truthy (JInt i) = (i \<noteq> 0)"
| "truthy (JFloat r) = (r \<noteq> 0)"
| "truthy (JStr s) = (s \<noteq> [])"
| "truthy (JArr xs) = (xs \<noteq> [])"
| "truthy (JObj kvs) = (kvs \<noteq> [])"

text \<open>A decoded object keeps the last value of a repeated key.\<close>

definition dict_get :: "(string \<times> json) list \<Rightarrow> string \<Rightarrow> json option" where
  "dict_get kvs k = map_of (rev kvs) k"

text \<open>\<^verbatim>\<open>doc[key]\<close> with a string key: only an object can be indexed that way.\<close>

fun subscript :: "json \<Rightarrow> string \<Rightarrow> exn + json" where
  "subscript (JObj kvs) k = (case dict_get kvs k of None \<Rightarrow> Inl (KeyError k) | Some v \<Rightarrow> Inr v)"
| "subscript _ k = Inl TypeError"

text \<open>
  \<^verbatim>\<open>for event in events\<close>: a list yields its elements, an object its keys (in order of first
  occurrence), a string its characters; nothing else can be iterated.
\<close>

fun iterate :: "json \<Rightarrow> exn + json list" where
  "iterate (JArr xs) = Inr xs"
| "iterate (JObj kvs) = Inr (map JStr (rev (remdups (rev (map fst kvs)))))"
| "iterate (JStr s) = Inr (map (\<lambda>c. JStr [c]) s)"
| "iterate _ = Inl TypeError"

text \<open>Lists and objects cannot be hashed, so they cannot be looked up in a set.\<close>

fun hashable :: "json \<Rightarrow> bool" where
  "hashable (JArr _) = False"
| "hashable (JObj _) = False"
| "hashable _ = True"

text \<open>
  The integer a hashable value compares equal to, if there is one: \<^verbatim>\<open>True == 1\<close>,
  \<^verbatim>\<open>False == 0\<close> and \<^verbatim>\<open>2.0 == 2\<close> hold in Python, with equal hashes.
\<close>

fun as_int :: "json \<Rightarrow> int option" where
  "as_int (JInt i) = Some i"
| "as_int (JBool b) = Some (if b then 1 else 0)"
| "as_int (JFloat r) = (if r = of_int \<lfloor>r\<rfloor> then Some \<lfloor>r\<rfloor> else None)"
| "as_int _ = None"

subsection \<open>Random source\<close>

definition randint :: "env \<Rightarrow> agent \<Rightarrow> int \<Rightarrow> int \<Rightarrow> agent \<times> (exn + int)" where
  "randint e st a b =
     (if b < a then (st, Inl ValueError)
      else (st\<lparr>draws := Suc (draws st)\<rparr>, Inr (a + int (rand e (draws st)) mod (b - a + 1))))"

definition choice :: "env \<Rightarrow> agent \<Rightarrow> 'a list \<Rightarrow> agent \<times> (exn + 'a)" where
  "choice e st xs =
     (if xs = [] then (st, Inl IndexError)
      else (st\<lparr>draws := Suc (draws st)\<rparr>, Inr (xs ! (rand e (draws st) mod length xs))))"

subsection \<open>Strategies\<close>

definition taunts :: "string option list" where
  "taunts =
     [Some ''Chaos reigns!'', Some ''You cannot stop me!'', Some ''This pixel is mine now.'',
      Some ''The void consumes all.'', None]"

definition strategy_random_chaos :: "env \<Rightarrow> agent \<Rightarrow> agent \<times> (exn + unit)" where
  "strategy_random_chaos e st =
     and_then (randint e st 0 (BOARD_SIZE - 1)) (\<lambda>st x.
     and_then (randint e st 0 (BOARD_SIZE - 1)) (\<lambda>st y.
     and_then (choice e st (colors st)) (\<lambda>st color.
     and_then (choice e st taunts) (\<lambda>st taunt.
     and_then (paint_pixel e st x y color taunt) (\<lambda>st _. (st, Inr ()))))))"

text \<open>\<^verbatim>\<open>range(length)\<close>: empty when the length is not positive.\<close>

definition range :: "int \<Rightarrow> int list" where
  "range n = map int [0..<nat n]"

fun draw_line_loop ::
  "env \<Rightarrow> int \<Rightarrow> int \<Rightarrow> string \<Rightarrow> string \<Rightarrow> int list \<Rightarrow> agent \<Rightarrow> agent \<times> (exn + unit)" where
  "draw_line_loop e start_x start_y direction color [] st = (st, Inr ())"
| "draw_line_loop e start_x start_y direction color (i # rest) st =
     (case (if direction = ''horizontal''
            then paint_pixel e st (start_x + i) start_y color None
            else paint_pixel e st start_x (start_y + i) color None) of
        (st1, Inl ex) \<Rightarrow> (st1, Inl ex)
      | (st1, Inr _) \<Rightarrow>
          draw_line_loop e start_x start_y direction color rest (sleep 100 st1))"

definition strategy_draw_line ::
  "env \<Rightarrow> agent \<Rightarrow> int \<Rightarrow> int \<Rightarrow> int \<Rightarrow> string \<Rightarrow> string \<Rightarrow> agent \<times> (exn + unit)" where
  "strategy_draw_line e st start_x start_y length' direction color =
     draw_line_loop e start_x start_y direction color (range length') st"

fun defend_loop :: "env \<Rightarrow> json list \<Rightarrow> agent \<Rightarrow> agent \<times> (exn + unit)" where
  "defend_loop e [] st = (st, Inr ())"
| "defend_loop e (JObj kvs # rest) st =
     (if dict_get kvs ''source'' = Some (JStr ''HUMAN'') then
        (case dict_get kvs ''x'' of
           None \<Rightarrow> (st, Inl (KeyError ''x''))
         | Some vx \<Rightarrow>
            (case dict_get kvs ''y'' of
               None \<Rightarrow> (st, Inl (KeyError ''y''))
             | Some vy \<Rightarrow>
                 if \<not> hashable vx \<or> \<not> hashable vy then (st, Inl TypeError)
                 else
                   (case (as_int vx, as_int vy) of
                      (Some x, Some y) \<Rightarrow>
                        if (x, y) \<in> my_pixels st then
                          (case choice e st (colors st) of
                             (st1, Inl ex) \<Rightarrow> (st1, Inl ex)
                           | (st1, Inr color) \<Rightarrow>
                              (case paint_pixel e st1 x y color (Some ''This is MY territory!'') of
                                 (st2, Inl ex) \<Rightarrow> (st2, Inl ex)
                               | (st2, Inr _) \<Rightarrow> defend_loop e rest st2))
                        else defend_loop e rest st
                    | _ \<Rightarrow> defend_loop e rest st)))
      else defend_loop e rest st)"
| "defend_loop e (_ # rest) st = (st, Inl AttributeError)"

definition strategy_defend_territory :: "env \<Rightarrow> agent \<Rightarrow> agent \<times> (exn + unit)" where
  "strategy_defend_territory e st =
     and_then (get_recent_events e st) (\<lambda>st events.
       case iterate events of
         Inl ex \<Rightarrow> (st, Inl ex)
       | Inr evs \<Rightarrow> defend_loop e evs st)"

fun draw_pattern_loop ::
  "env \<Rightarrow> int \<Rightarrow> int \<Rightarrow> string \<Rightarrow> (int \<times> int) list \<Rightarrow> agent \<Rightarrow> agent \<times> (exn + unit)" where
  "draw_pattern_loop e start_x start_y color [] st = (st, Inr ())"
| "draw_pattern_loop e start_x start_y color ((dx, dy) # rest) st =
     (let x = start_x + dx; y = start_y + dy in
      if 0 \<le> x \<and> x < BOARD_SIZE \<and> 0 \<le> y \<and> y < BOARD_SIZE then
        (case paint_pixel e st x y color None of
           (st1, Inl ex) \<Rightarrow> (st1, Inl ex)
         | (st1, Inr _) \<Rightarrow> draw_pattern_loop e start_x start_y color rest (sleep 50 st1))
      else draw_pattern_loop e start_x start_y color rest st)"

definition strategy_draw_pattern ::
  "env \<Rightarrow> agent \<Rightarrow> string \<Rightarrow> int \<Rightarrow> int \<Rightarrow> string \<Rightarrow> agent \<times> (exn + unit)" where
  "strategy_draw_pattern e st pattern start_x start_y color =
     (case map_of patterns pattern of
        None \<Rightarrow> (st, Inr ())
      | Some offsets \<Rightarrow> draw_pattern_loop e start_x start_y color offsets st)"

subsection \<open>Main loop\<close>

text \<open>One pass through the body of \<^verbatim>\<open>while True\<close>, after the iteration banner.\<close>

definition tick :: "env \<Rightarrow> nat \<Rightarrow> agent \<Rightarrow> agent \<times> (exn + unit)" where
  "tick e interval st =
     and_then (choice e st [''chaos'', ''chaos'', ''defend'', ''pattern'', ''line'']) (\<lambda>st action.
     and_then
       (if action = ''chaos'' then strategy_random_chaos e st
        else if action = ''defend'' then strategy_defend_territory e st
        else if action = ''pattern'' then
          and_then (choice e st [''square'', ''cross'', ''heart'']) (\<lambda>st pattern.
          and_then (randint e st 5 (BOARD_SIZE - 15)) (\<lambda>st x.
          and_then (randint e st 5 (BOARD_SIZE - 15)) (\<lambda>st y.
          and_then (choice e st (colors st)) (\<lambda>st color.
          strategy_draw_pattern e st pattern x y color))))
        else if action = ''line'' then
          and_then (randint e st 0 (BOARD_SIZE - 20)) (\<lambda>st x.
          and_then (randint e st 0 (BOARD_SIZE - 1)) (\<lambda>st y.
          and_then (choice e st [''horizontal'', ''vertical'']) (\<lambda>st direction.
          and_then (randint e st 5 15) (\<lambda>st length'.
          and_then (choice e st (colors st)) (\<lambda>st color.
          strategy_draw_line e st x y length' direction color)))))
        else (st, Inr ()))
       (\<lambda>st _. (sleep interval st, Inr ())))"

text \<open>
  The loop runs until it is interrupted, so it is given fuel: the number of iterations it
  may start. The result \<open>None\<close> says that the loop is still running when the fuel is used
  up; \<open>Some (Inr ())\<close> that \<^verbatim>\<open>run\<close> returned; \<open>Some (Inl ex)\<close> that \<open>ex\<close> left it.
\<close>

fun run_loop :: "nat \<Rightarrow> env \<Rightarrow> nat \<Rightarrow> int \<Rightarrow> agent \<Rightarrow> agent \<times> (exn + unit) option" where
  "run_loop 0 e interval iteration st = (st, None)"
| "run_loop (Suc fuel) e interval iteration st =
     (case tick e interval (emit (Iteration (iteration + 1)) st) of
        (st1, Inr _) \<Rightarrow> run_loop fuel e interval (iteration + 1) st1
      | (st1, Inl ex) \<Rightarrow>
          if ex = KeyboardInterrupt then (st1, Some (Inr ()))
          else if is_Exception ex then run_loop fuel e interval (iteration + 1) (sleep 5000 st1)
          else (st1, Some (Inl ex)))"

definition run :: "nat \<Rightarrow> env \<Rightarrow> nat \<Rightarrow> agent \<Rightarrow> agent \<times> (exn + unit) option" where
  "run fuel e interval st =
     (case get_board_state e st of
        (st1, Inl ex) \<Rightarrow> (st1, Some (Inl ex))
      | (st1, Inr board) \<Rightarrow>
          if truthy board then
            (case subscript board ''width'' of
               Inl ex \<Rightarrow> (st1, Some (Inl ex))
             | Inr _ \<Rightarrow>
                (case subscript board ''height'' of
                   Inl ex \<Rightarrow> (st1, Some (Inl ex))
                 | Inr _ \<Rightarrow> run_loop fuel e interval 0 st1))
          else (st1, Some (Inr ())))"

section \<open>Notions used to state the properties\<close>

text \<open>The coordinates of the paint requests among some events, in order.\<close>

fun paint_coords :: "event list \<Rightarrow> (int \<times> int) list" where
  "paint_coords [] = []"
| "paint_coords (Post path body # evs) = (p_x body, p_y body) # paint_coords evs"
| "paint_coords (_ # evs) = paint_coords evs"

text \<open>What an operation added to the trace, given the agent before and after it.\<close>

definition issued :: "agent \<Rightarrow> agent \<Rightarrow> event list" where
  "issued st st' = drop (length (trace st)) (trace st')"

text \<open>A reply that is a response or an ordinary error, not an interruption of the process.\<close>

fun no_interrupt :: "reply \<Rightarrow> bool" where
  "no_interrupt (Resp _ _) = True"
| "no_interrupt (Fail ex) = is_Exception ex"

definition in_bounds :: "int \<times> int \<Rightarrow> bool" where
  "in_bounds c = (0 \<le> fst c \<and> fst c < BOARD_SIZE \<and> 0 \<le> snd c \<and> snd c < BOARD_SIZE)"

text \<open>The i-th point of a line: one component of the start moves by i.\<close>

definition line_point :: "string \<Rightarrow> int \<Rightarrow> int \<Rightarrow> int \<Rightarrow> int \<times> int" where
  "line_point direction start_x start_y i =
     (if direction = ''horizontal'' then (start_x + i, start_y) else (start_x, start_y + i))"

text \<open>The offsets of a pattern moved to an anchor, those off the board left out.\<close>

definition stamp :: "int \<Rightarrow> int \<Rightarrow> (int \<times> int) list \<Rightarrow> (int \<times> int) list" where
  "stamp start_x start_y offsets =
     filter in_bounds (map (\<lambda>(dx, dy). (start_x + dx, start_y + dy)) offsets)"

text \<open>
  A test environment: the service gives the same reply to every request and the random
  source always draws 0.
\<close>

definition const_env :: "reply \<Rightarrow> env" where
  "const_env r = \<lparr> service = (\<lambda>h. r), rand = (\<lambda>n. 0) \<rparr>"

text \<open>
  The coordinates of the paint requests, among the events issued after the history \<open>h\<close>,
  that the service answered with status 200.
\<close>

fun acknowledged :: "env \<Rightarrow> event list \<Rightarrow> event list \<Rightarrow> (int \<times> int) set" where
  "acknowledged e h [] = {}"
| "acknowledged e h (Post path body # evs) =
     (case service e (h @ [Post path body]) of
        Resp status_code _ \<Rightarrow> if status_code = 200 then {(p_x body, p_y body)} else {}
      | Fail _ \<Rightarrow> {})
     \<union> acknowledged e (h @ [Post path body]) evs"
| "acknowledged e h (ev # evs) = acknowledged e (h @ [ev]) evs"

text \<open>
  How a strategy may change the agent: name and palette stay, the trace is extended by
  events other than a board request, and the owned pixels grow by exactly the
  acknowledged paint requests.
\<close>

definition advances :: "env \<Rightarrow> agent \<Rightarrow> agent \<Rightarrow> bool" where
  "advances e st st' =
     (name st' = name st \<and> colors st' = colors st \<and> prefix (trace st) (trace st') \<and>
      Get ''/api/board'' \<notin> set (issued st st') \<and>
      my_pixels st' = my_pixels st \<union> acknowledged e (trace st) (issued st st'))"

text \<open>
  The coordinate that an event returned by the service asks to reclaim, if any: the event
  is an object whose source is the human actor and whose coordinate is an owned pixel.
\<close>

fun reclaim_target :: "(int \<times> int) set \<Rightarrow> json \<Rightarrow> (int \<times> int) option" where
  "reclaim_target owned (JObj kvs) =
     (if dict_get kvs ''source'' = Some (JStr ''HUMAN'') then
        (case (Option.bind (dict_get kvs ''x'') as_int, Option.bind (dict_get kvs ''y'') as_int) of
           (Some x, Some y) \<Rightarrow> if (x, y) \<in> owned then Some (x, y) else None
         | _ \<Rightarrow> None)
      else None)"
| "reclaim_target owned _ = None"

text \<open>
  An event as the service's contract describes it: an object with a string \<open>source\<close> and
  integers \<open>x\<close> and \<open>y\<close>.
\<close>

definition has_str :: "(string \<times> json) list \<Rightarrow> string \<Rightarrow> bool" where
  "has_str kvs k = (case dict_get kvs k of Some (JStr _) \<Rightarrow> True | _ \<Rightarrow> False)"

definition has_int :: "(string \<times> json) list \<Rightarrow> string \<Rightarrow> bool" where
  "has_int kvs k = (case dict_get kvs k of Some (JInt _) \<Rightarrow> True | _ \<Rightarrow> False)"

fun conforming :: "json \<Rightarrow> bool" where
  "conforming (JObj kvs) = (has_str kvs ''source'' \<and> has_int kvs ''x'' \<and> has_int kvs ''y'')"
| "conforming _ = False"

text \<open>
  A test environment: the service answers every GET with the given document and
  acknowledges every other request with status 200; the random source always draws 0.
\<close>

definition scripted_env :: "json \<Rightarrow> env" where
  "scripted_env doc =
     \<lparr> service = (\<lambda>h. case rev h of Get _ # _ \<Rightarrow> Resp 200 (Some doc) | _ \<Rightarrow> Resp 200 None),
       rand = (\<lambda>n. 0) \<rparr>"

text \<open>
  The owned pixels only grow over an operation, and grow by exactly the coordinates of the
  paint requests that the operation issued and the service acknowledged.
\<close>

definition grows_by_acknowledged :: "env \<Rightarrow> agent \<Rightarrow> agent \<Rightarrow> bool" where
  "grows_by_acknowledged e st st' =
     (my_pixels st \<subseteq> my_pixels st' \<and>
      my_pixels st' = my_pixels st \<union> acknowledged e (trace st) (issued st st'))"

section \<open>Traces\<close>

lemma paint_coords_append: "paint_coords (xs @ ys) = paint_coords xs @ paint_coords ys"
  by (induction xs rule: paint_coords.induct) simp_all

lemma issued_append: "trace st' = trace st @ evs \<Longrightarrow> issued st st' = evs"
  by (simp add: issued_def)

lemma trace_emit: "trace (emit ev st) = trace st @ [ev]"
  by (simp add: emit_def)

lemma trace_sleep: "trace (sleep ms st) = trace st @ [Sleep ms]"
  by (simp add: sleep_def emit_def)

lemma acknowledged_append:
  "acknowledged e h (xs @ ys) = acknowledged e h xs \<union> acknowledged e (h @ xs) ys"
proof (induction xs arbitrary: h)
  case Nil
  then show ?case by simp
next
  case (Cons ev xs)
  then show ?case by (cases ev) (simp_all add: Un_assoc)
qed

section \<open>How operations change the agent\<close>

lemma advancesI:
  assumes "name st' = name st" and "colors st' = colors st"
    and "trace st' = trace st @ evs" and "Get ''/api/board'' \<notin> set evs"
    and "my_pixels st' = my_pixels st \<union> acknowledged e (trace st) evs"
  shows "advances e st st'"
  using assms by (simp add: advances_def issued_def)

lemma advancesD:
  assumes "advances e st st'"
  shows "name st' = name st" and "colors st' = colors st"
    and "trace st' = trace st @ issued st st'"
    and "Get ''/api/board'' \<notin> set (issued st st')"
    and "my_pixels st' = my_pixels st \<union> acknowledged e (trace st) (issued st st')"
  using assms by (auto simp add: advances_def issued_def prefix_def)

lemma advances_refl: "advances e st st"
  by (rule advancesI [where evs = "[]"]) simp_all

lemma advances_trans:
  assumes "advances e st st1" and "advances e st1 st2"
  shows "advances e st st2"
proof (rule advancesI [where evs = "issued st st1 @ issued st1 st2"])
  show "name st2 = name st" "colors st2 = colors st"
    using assms by (simp_all add: advancesD)
  show "trace st2 = trace st @ issued st st1 @ issued st1 st2"
    using advancesD(3) [OF assms(1)] advancesD(3) [OF assms(2)] by simp
  show "Get ''/api/board'' \<notin> set (issued st st1 @ issued st1 st2)"
    using advancesD(4) [OF assms(1)] advancesD(4) [OF assms(2)] by simp
  have "acknowledged e (trace st1) (issued st1 st2) =
          acknowledged e (trace st @ issued st st1) (issued st1 st2)"
    using advancesD(3) [OF assms(1)] by simp
  then show "my_pixels st2 =
      my_pixels st \<union> acknowledged e (trace st) (issued st st1 @ issued st1 st2)"
    using advancesD(5) [OF assms(1)] advancesD(5) [OF assms(2)]
    by (simp add: acknowledged_append Un_assoc)
qed

lemma advances_sleep: "advances e st (sleep ms st)"
  by (rule advancesI [where evs = "[Sleep ms]"]) (simp_all add: sleep_def emit_def)

lemma advances_iteration: "advances e st (emit (Iteration n) st)"
  by (rule advancesI [where evs = "[Iteration n]"]) (simp_all add: emit_def)

lemma advances_draws: "advances e st (st\<lparr>draws := n\<rparr>)"
  by (rule advancesI [where evs = "[]"]) simp_all

lemma advances_randint: "advances e st (fst (randint e st a b))"
  by (simp add: randint_def advances_refl advances_draws)

lemma advances_choice: "advances e st (fst (choice e st xs))"
  by (simp add: choice_def advances_refl advances_draws)

lemma advances_paint_pixel: "advances e st (fst (paint_pixel e st x y color message))"
  by (rule advancesI [where evs = "[Post ''/api/paint'' \<lparr> p_x = x, p_y = y, p_color = color,
          p_source = ''AI_AGENT:'' @ name st,
          p_message = (if message = Some [] then None else message) \<rparr>]"])
     (simp_all add: paint_pixel_def Let_def emit_def split: reply.splits)

lemma advances_get_recent_events: "advances e st (fst (get_recent_events e st))"
  by (rule advancesI [where evs = "[Get ''/api/events/recent'']"])
     (simp_all add: get_recent_events_def Let_def emit_def split: reply.splits option.splits)

lemma advances_and_then:
  assumes "advances e st (fst m)" and "\<And>st1 v. advances e st1 (fst (f st1 v))"
  shows "advances e st (fst (and_then m f))"
proof (cases m)
  case (Pair st1 r)
  show ?thesis
  proof (cases r)
    case (Inl ex)
    with Pair assms(1) show ?thesis by (simp add: and_then_def)
  next
    case (Inr v)
    with Pair have "fst (and_then m f) = fst (f st1 v)" by (simp add: and_then_def)
    with assms(1) assms(2) [of st1 v] Pair show ?thesis
      by (auto intro: advances_trans)
  qed
qed

lemma advances_if:
  assumes "advances e st (fst a)" and "advances e st (fst b)"
  shows "advances e st (fst (if c then a else b))"
  using assms by simp

lemma advances_return: "advances e st (fst (st, r))"
  by (simp add: advances_refl)

lemma advances_strategy_random_chaos: "advances e st (fst (strategy_random_chaos e st))"
  unfolding strategy_random_chaos_def
  by (intro advances_and_then advances_randint advances_choice advances_paint_pixel
      advances_return)

lemma draw_line_step:
  "(if d = ''horizontal'' then paint_pixel e st (sx + i) sy c None
    else paint_pixel e st sx (sy + i) c None) =
   paint_pixel e st (fst (line_point d sx sy i)) (snd (line_point d sx sy i)) c None"
  by (simp add: line_point_def)

lemma advances_draw_line_loop: "advances e st (fst (draw_line_loop e sx sy d c is st))"
proof (induction "is" arbitrary: st)
  case Nil
  show ?case by (simp add: advances_refl)
next
  case (Cons i rest)
  let ?p = "paint_pixel e st (fst (line_point d sx sy i)) (snd (line_point d sx sy i)) c None"
  obtain st1 r1 where p: "?p = (st1, r1)" by (cases ?p)
  have a1: "advances e st st1" using advances_paint_pixel [of e st _ _ c None] p by (metis fst_conv)
  show ?case
  proof (cases r1)
    case (Inl ex)
    with p a1 show ?thesis by (simp add: draw_line_step)
  next
    case (Inr b)
    have "advances e st1 (fst (draw_line_loop e sx sy d c rest (sleep 100 st1)))"
      using advances_sleep Cons.IH by (rule advances_trans)
    with a1 have "advances e st (fst (draw_line_loop e sx sy d c rest (sleep 100 st1)))"
      by (rule advances_trans)
    with p Inr show ?thesis by (simp add: draw_line_step)
  qed
qed

lemma advances_strategy_draw_line:
  "advances e st (fst (strategy_draw_line e st sx sy n d c))"
  by (simp add: strategy_draw_line_def advances_draw_line_loop)

lemma draw_pattern_loop_Cons:
  "draw_pattern_loop e sx sy c ((dx, dy) # rest) st =
     (if in_bounds (sx + dx, sy + dy) then
        (case paint_pixel e st (sx + dx) (sy + dy) c None of
           (st1, Inl ex) \<Rightarrow> (st1, Inl ex)
         | (st1, Inr _) \<Rightarrow> draw_pattern_loop e sx sy c rest (sleep 50 st1))
      else draw_pattern_loop e sx sy c rest st)"
  by (simp add: in_bounds_def Let_def)

lemma advances_draw_pattern_loop: "advances e st (fst (draw_pattern_loop e sx sy c offs st))"
proof (induction offs arbitrary: st)
  case Nil
  show ?case by (simp add: advances_refl)
next
  case (Cons off rest)
  obtain dx dy where off: "off = (dx, dy)" by (cases off)
  let ?p = "paint_pixel e st (sx + dx) (sy + dy) c None"
  obtain st1 r1 where p: "?p = (st1, r1)" by (cases ?p)
  have a1: "advances e st st1" using advances_paint_pixel [of e st _ _ c None] p by (metis fst_conv)
  show ?case
  proof (cases "in_bounds (sx + dx, sy + dy)")
    case False
    with Cons.IH off show ?thesis by (simp only: draw_pattern_loop_Cons if_False)
  next
    case True
    show ?thesis
    proof (cases r1)
      case (Inl ex)
      with p a1 off True show ?thesis by (simp only: draw_pattern_loop_Cons) simp
    next
      case (Inr b)
      have "advances e st1 (fst (draw_pattern_loop e sx sy c rest (sleep 50 st1)))"
        using advances_sleep Cons.IH by (rule advances_trans)
      with a1 have "advances e st (fst (draw_pattern_loop e sx sy c rest (sleep 50 st1)))"
        by (rule advances_trans)
      with p Inr off True show ?thesis by (simp only: draw_pattern_loop_Cons) simp
    qed
  qed
qed

lemma advances_strategy_draw_pattern:
  "advances e st (fst (strategy_draw_pattern e st pattern sx sy c))"
  by (simp add: strategy_draw_pattern_def advances_draw_pattern_loop advances_refl
      split: option.splits)

section \<open>The remote client, step by step\<close>

lemma paint_pixel_trace:
  assumes "paint_pixel e st x y color message = (st', r)"
  shows "\<exists>body. trace st' = trace st @ [Post ''/api/paint'' body] \<and> p_x body = x \<and> p_y body = y"
  using assms by (auto simp add: paint_pixel_def Let_def emit_def split: reply.splits if_splits)

lemma paint_pixel_raises:
  assumes "paint_pixel e st x y color message = (st', Inl ex)"
  shows "service e (trace st') = Fail ex \<and> \<not> is_Exception ex"
  using assms by (auto simp add: paint_pixel_def Let_def emit_def split: reply.splits if_splits)

lemma paint_pixel_owned:
  assumes "paint_pixel e st x y color message = (st', r)"
  shows "my_pixels st' = (if r = Inr True then insert (x, y) (my_pixels st) else my_pixels st)"
  using assms by (auto simp add: paint_pixel_def Let_def emit_def split: reply.splits if_splits)

lemma paint_pixel_colors:
  assumes "paint_pixel e st x y color message = (st', r)"
  shows "colors st' = colors st"
  using assms by (auto simp add: paint_pixel_def Let_def emit_def split: reply.splits if_splits)

lemma choice_state:
  assumes "choice e st xs = (st', r)"
  shows "trace st' = trace st \<and> my_pixels st' = my_pixels st \<and> colors st' = colors st"
  using assms by (auto simp add: choice_def split: if_splits)

lemma choice_returns:
  assumes "xs \<noteq> []"
  shows "\<exists>x. snd (choice e st xs) = Inr x"
  using assms by (simp add: choice_def)

section \<open>Defending territory\<close>

lemma as_int_hashable: "as_int v = Some i \<Longrightarrow> hashable v"
  by (cases v) simp_all

lemma defend_loop_reclaim:
  assumes "reclaim_target (my_pixels st) ev = Some (x, y)"
  shows "defend_loop e (ev # rest) st =
     (case choice e st (colors st) of
        (st1, Inl ex) \<Rightarrow> (st1, Inl ex)
      | (st1, Inr color) \<Rightarrow>
         (case paint_pixel e st1 x y color (Some ''This is MY territory!'') of
            (st2, Inl ex) \<Rightarrow> (st2, Inl ex)
          | (st2, Inr _) \<Rightarrow> defend_loop e rest st2))"
proof (cases ev)
  case (JObj kvs)
  from assms JObj have src: "dict_get kvs ''source'' = Some (JStr ''HUMAN'')"
    by (simp split: if_splits)
  from assms JObj src obtain vx vy where
    v: "dict_get kvs ''x'' = Some vx" "dict_get kvs ''y'' = Some vy"
       "as_int vx = Some x" "as_int vy = Some y" "(x, y) \<in> my_pixels st"
    by (auto split: option.splits if_splits Option.bind_splits)
  then have "hashable vx" "hashable vy" by (simp_all add: as_int_hashable)
  with JObj src v show ?thesis by simp
qed (use assms in simp_all)

lemma defend_loop_skip:
  assumes "reclaim_target (my_pixels st) ev = None"
  shows "defend_loop e (ev # rest) st = defend_loop e rest st
       \<or> (\<exists>ex. defend_loop e (ev # rest) st = (st, Inl ex) \<and> is_Exception ex)"
proof (cases ev)
  case (JObj kvs)
  with assms show ?thesis
    by (auto split: option.splits if_splits Option.bind_splits)
qed simp_all

lemma defend_loop_coords:
  "defend_loop e evs st = (st', r) \<Longrightarrow>
     my_pixels st' = my_pixels st \<and>
     (\<exists>new. trace st' = trace st @ new \<and>
        prefix (paint_coords new) (List.map_filter (reclaim_target (my_pixels st)) evs) \<and>
        (r = Inr () \<longrightarrow> paint_coords new = List.map_filter (reclaim_target (my_pixels st)) evs))"
proof (induction evs arbitrary: st)
  case Nil
  then show ?case by (simp add: map_filter_simps)
next
  case (Cons ev rest)
  show ?case
  proof (cases "reclaim_target (my_pixels st) ev")
    case None
    then have mf: "List.map_filter (reclaim_target (my_pixels st)) (ev # rest) =
        List.map_filter (reclaim_target (my_pixels st)) rest"
      by (simp add: map_filter_simps)
    from defend_loop_skip [OF None, of e rest] show ?thesis
    proof
      assume "defend_loop e (ev # rest) st = defend_loop e rest st"
      with Cons.prems have "defend_loop e rest st = (st', r)" by simp
      from Cons.IH [OF this] mf show ?thesis by simp
    next
      assume "\<exists>ex. defend_loop e (ev # rest) st = (st, Inl ex) \<and> is_Exception ex"
      with Cons.prems have "st' = st" "r \<noteq> Inr ()" by auto
      then show ?thesis by simp
    qed
  next
    case (Some c)
    obtain x y where c: "c = (x, y)" by (cases c)
    from Some c have tgt: "reclaim_target (my_pixels st) ev = Some (x, y)" by simp
    then have own: "(x, y) \<in> my_pixels st"
      by (cases ev) (auto split: if_splits option.splits Option.bind_splits)
    from tgt have mf: "List.map_filter (reclaim_target (my_pixels st)) (ev # rest) =
        (x, y) # List.map_filter (reclaim_target (my_pixels st)) rest"
      by (simp add: map_filter_simps)
    note step = defend_loop_reclaim [OF tgt, of e rest]
    obtain st1 r1 where ch: "choice e st (colors st) = (st1, r1)"
      by (cases "choice e st (colors st)")
    from choice_state [OF ch] have s1: "trace st1 = trace st" "my_pixels st1 = my_pixels st"
      by simp_all
    show ?thesis
    proof (cases r1)
      case (Inl ex)
      with step ch Cons.prems have "st' = st1" "r = Inl ex" by simp_all
      with s1 show ?thesis by simp
    next
      case (Inr color)
      obtain st2 r2 where pp: "paint_pixel e st1 x y color (Some ''This is MY territory!'') = (st2, r2)"
        by (cases "paint_pixel e st1 x y color (Some ''This is MY territory!'')")
      from paint_pixel_trace [OF pp] s1 obtain body where
        t2: "trace st2 = trace st @ [Post ''/api/paint'' body]" "p_x body = x" "p_y body = y"
        by auto
      from paint_pixel_owned [OF pp] own s1 have o2: "my_pixels st2 = my_pixels st"
        by (auto simp add: insert_absorb)
      show ?thesis
      proof (cases r2)
        case (Inl ex)
        with step ch Inr pp Cons.prems have "st' = st2" "r = Inl ex" by simp_all
        with t2 o2 mf show ?thesis by simp
      next
        case (Inr b)
        with step ch \<open>r1 = Inr color\<close> pp Cons.prems have "defend_loop e rest st2 = (st', r)"
          by simp
        from Cons.IH [OF this] o2 obtain new where
          "my_pixels st' = my_pixels st" "trace st' = trace st2 @ new"
          "prefix (paint_coords new) (List.map_filter (reclaim_target (my_pixels st)) rest)"
          "r = Inr () \<longrightarrow> paint_coords new = List.map_filter (reclaim_target (my_pixels st)) rest"
          by auto
        with t2 mf show ?thesis
          by (intro conjI exI [of _ "Post ''/api/paint'' body # new"]) simp_all
      qed
    qed
  qed
qed

lemma advances_defend_loop: "advances e st (fst (defend_loop e evs st))"
proof (induction evs arbitrary: st)
  case Nil
  show ?case by (simp add: advances_refl)
next
  case (Cons ev rest)
  show ?case
  proof (cases "reclaim_target (my_pixels st) ev")
    case None
    from defend_loop_skip [OF None, of e rest] Cons.IH [of st] show ?thesis
      by (auto simp add: advances_refl)
  next
    case (Some c)
    obtain x y where c: "c = (x, y)" by (cases c)
    from Some c have tgt: "reclaim_target (my_pixels st) ev = Some (x, y)" by simp
    note step = defend_loop_reclaim [OF tgt, of e rest]
    obtain st1 r1 where ch: "choice e st (colors st) = (st1, r1)"
      by (cases "choice e st (colors st)")
    have a1: "advances e st st1" using advances_choice [of e st "colors st"] ch by simp
    show ?thesis
    proof (cases r1)
      case (Inl ex)
      with step ch a1 show ?thesis by simp
    next
      case (Inr color)
      obtain st2 r2 where pp: "paint_pixel e st1 x y color (Some ''This is MY territory!'') = (st2, r2)"
        by (cases "paint_pixel e st1 x y color (Some ''This is MY territory!'')")
      have "advances e st1 st2"
        using advances_paint_pixel [of e st1 x y color "Some ''This is MY territory!''"] pp by simp
      with a1 have a2: "advances e st st2" by (rule advances_trans)
      show ?thesis
      proof (cases r2)
        case (Inl ex)
        with step ch Inr pp a2 show ?thesis by simp
      next
        case (Inr b)
        from a2 Cons.IH [of st2] have "advances e st (fst (defend_loop e rest st2))"
          by (rule advances_trans)
        with step ch \<open>r1 = Inr color\<close> pp Inr show ?thesis by simp
      qed
    qed
  qed
qed

lemma advances_strategy_defend_territory:
  "advances e st (fst (strategy_defend_territory e st))"
  unfolding strategy_defend_territory_def
  by (intro advances_and_then advances_get_recent_events)
     (simp add: advances_refl advances_defend_loop split: sum.splits)

section \<open>The main loop\<close>

lemma advances_tick: "advances e st (fst (tick e interval st))"
  unfolding tick_def
  by (intro advances_and_then advances_if advances_randint advances_choice advances_return
      advances_strategy_random_chaos advances_strategy_defend_territory
      advances_strategy_draw_pattern advances_strategy_draw_line)
     (simp add: advances_sleep)

lemma advances_run_loop: "advances e st (fst (run_loop fuel e interval iteration st))"
proof (induction fuel arbitrary: st iteration)
  case 0
  show ?case by (simp add: advances_refl)
next
  case (Suc fuel)
  let ?st0 = "emit (Iteration (iteration + 1)) st"
  obtain st1 r1 where t: "tick e interval ?st0 = (st1, r1)" by (cases "tick e interval ?st0")
  have "advances e ?st0 st1" using advances_tick [of e ?st0 interval] t by simp
  with advances_iteration have a1: "advances e st st1" by (rule advances_trans)
  show ?case
  proof (cases r1)
    case (Inr u)
    from a1 Suc.IH have "advances e st (fst (run_loop fuel e interval (iteration + 1) st1))"
      by (rule advances_trans)
    with t Inr show ?thesis by simp
  next
    case (Inl ex)
    have "advances e st1 (fst (run_loop fuel e interval (iteration + 1) (sleep 5000 st1)))"
      using advances_sleep Suc.IH by (rule advances_trans)
    with a1 have "advances e st (fst (run_loop fuel e interval (iteration + 1) (sleep 5000 st1)))"
      by (rule advances_trans)
    with t Inl a1 show ?thesis by simp
  qed
qed

section \<open>Which paint requests the drawing strategies issue\<close>

lemma draw_line_loop_coords:
  "draw_line_loop e sx sy d c is st = (st', r) \<Longrightarrow>
     \<exists>evs. trace st' = trace st @ evs \<and>
       prefix (paint_coords evs) (map (line_point d sx sy) is) \<and>
       (r = Inr () \<longrightarrow> paint_coords evs = map (line_point d sx sy) is)"
proof (induction "is" arbitrary: st)
  case Nil
  then show ?case by simp
next
  case (Cons i rest)
  let ?p = "paint_pixel e st (fst (line_point d sx sy i)) (snd (line_point d sx sy i)) c None"
  obtain st1 r1 where p: "?p = (st1, r1)" by (cases ?p)
  from paint_pixel_trace [OF p] obtain body where
    ev: "trace st1 = trace st @ [Post ''/api/paint'' body]" and
    pc: "(p_x body, p_y body) = line_point d sx sy i"
    by auto
  show ?case
  proof (cases r1)
    case (Inl ex)
    with Cons.prems p have "st' = st1" "r = Inl ex"
      by (simp_all add: draw_line_step)
    with ev pc show ?thesis by simp
  next
    case (Inr b)
    with Cons.prems p have "draw_line_loop e sx sy d c rest (sleep 100 st1) = (st', r)"
      by (simp add: draw_line_step)
    from Cons.IH [OF this] obtain evs where
      "trace st' = trace (sleep 100 st1) @ evs"
      "prefix (paint_coords evs) (map (line_point d sx sy) rest)"
      "r = Inr () \<longrightarrow> paint_coords evs = map (line_point d sx sy) rest"
      by blast
    with ev pc show ?thesis
      by (intro exI [of _ "Post ''/api/paint'' body # Sleep 100 # evs"]) (simp add: trace_sleep)
  qed
qed

lemma draw_line_loop_raises:
  "draw_line_loop e sx sy d c is st = (st', Inl ex) \<Longrightarrow>
     \<exists>h. service e h = Fail ex \<and> \<not> is_Exception ex"
proof (induction "is" arbitrary: st)
  case Nil
  then show ?case by simp
next
  case (Cons i rest)
  let ?p = "paint_pixel e st (fst (line_point d sx sy i)) (snd (line_point d sx sy i)) c None"
  obtain st1 r1 where p: "?p = (st1, r1)" by (cases ?p)
  show ?case
  proof (cases r1)
    case (Inl ex1)
    with Cons.prems p have "?p = (st1, Inl ex)" by (simp add: draw_line_step)
    from paint_pixel_raises [OF this] show ?thesis by blast
  next
    case (Inr b)
    with p Cons show ?thesis by (simp add: draw_line_step)
  qed
qed

lemma stamp_Nil: "stamp sx sy [] = []"
  by (simp add: stamp_def)

lemma stamp_Cons:
  "stamp sx sy ((dx, dy) # rest) =
     (if in_bounds (sx + dx, sy + dy) then (sx + dx, sy + dy) # stamp sx sy rest
      else stamp sx sy rest)"
  by (simp add: stamp_def)

lemma draw_pattern_loop_coords:
  "draw_pattern_loop e sx sy c offs st = (st', r) \<Longrightarrow>
     \<exists>evs. trace st' = trace st @ evs \<and>
       prefix (paint_coords evs) (stamp sx sy offs) \<and>
       (r = Inr () \<longrightarrow> paint_coords evs = stamp sx sy offs)"
proof (induction offs arbitrary: st)
  case Nil
  then show ?case by (simp add: stamp_Nil)
next
  case (Cons off rest)
  obtain dx dy where off: "off = (dx, dy)" by (cases off)
  show ?case
  proof (cases "in_bounds (sx + dx, sy + dy)")
    case False
    with Cons.prems off have "draw_pattern_loop e sx sy c rest st = (st', r)"
      by (simp only: draw_pattern_loop_Cons if_False)
    from Cons.IH [OF this] False off show ?thesis
      by (simp only: stamp_Cons if_False)
  next
    case True
    obtain st1 r1 where p: "paint_pixel e st (sx + dx) (sy + dy) c None = (st1, r1)"
      by (cases "paint_pixel e st (sx + dx) (sy + dy) c None")
    from paint_pixel_trace [OF p] obtain body where
      ev: "trace st1 = trace st @ [Post ''/api/paint'' body]" and
      pc: "p_x body = sx + dx" "p_y body = sy + dy"
      by auto
    from True off have st: "stamp sx sy (off # rest) = (sx + dx, sy + dy) # stamp sx sy rest"
      by (simp only: stamp_Cons if_True)
    show ?thesis
    proof (cases r1)
      case (Inl ex)
      with Cons.prems p off True have "st' = st1" "r = Inl ex"
        by (simp_all only: draw_pattern_loop_Cons if_True) simp_all
      with ev pc st show ?thesis by simp
    next
      case (Inr b)
      with Cons.prems p off True have "draw_pattern_loop e sx sy c rest (sleep 50 st1) = (st', r)"
        by (simp only: draw_pattern_loop_Cons if_True) simp
      from Cons.IH [OF this] obtain evs where
        "trace st' = trace (sleep 50 st1) @ evs"
        "prefix (paint_coords evs) (stamp sx sy rest)"
        "r = Inr () \<longrightarrow> paint_coords evs = stamp sx sy rest"
        by blast
      with ev pc st show ?thesis
        by (intro exI [of _ "Post ''/api/paint'' body # Sleep 50 # evs"])
           (simp add: trace_sleep)
    qed
  qed
qed

lemma draw_pattern_loop_raises:
  "draw_pattern_loop e sx sy c offs st = (st', Inl ex) \<Longrightarrow>
     \<exists>h. service e h = Fail ex \<and> \<not> is_Exception ex"
proof (induction offs arbitrary: st)
  case Nil
  then show ?case by simp
next
  case (Cons off rest)
  obtain dx dy where off: "off = (dx, dy)" by (cases off)
  obtain st1 r1 where p: "paint_pixel e st (sx + dx) (sy + dy) c None = (st1, r1)"
    by (cases "paint_pixel e st (sx + dx) (sy + dy) c None")
  show ?case
  proof (cases "in_bounds (sx + dx, sy + dy)")
    case False
    with Cons off show ?thesis by (simp only: draw_pattern_loop_Cons if_False)
  next
    case True
    show ?thesis
    proof (cases r1)
      case (Inl ex1)
      with Cons.prems p off True have "paint_pixel e st (sx + dx) (sy + dy) c None = (st1, Inl ex)"
        by (simp only: draw_pattern_loop_Cons if_True) simp
      from paint_pixel_raises [OF this] show ?thesis by blast
    next
      case (Inr b)
      with Cons.prems p off True have "draw_pattern_loop e sx sy c rest (sleep 50 st1) = (st', Inl ex)"
        by (simp only: draw_pattern_loop_Cons if_True) simp
      then show ?thesis by (rule Cons.IH)
    qed
  qed
qed

lemma no_interrupt_returns:
  assumes "\<forall>h. no_interrupt (service e h)"
    and "\<And>ex. r = Inl ex \<Longrightarrow> \<exists>h. service e h = Fail ex \<and> \<not> is_Exception ex"
  shows "r = Inr ()"
proof (cases r)
  case (Inl ex)
  from assms(2) [OF this] obtain h where "service e h = Fail ex" "\<not> is_Exception ex" by blast
  with assms(1) [rule_format, of h] show ?thesis by simp
next
  case (Inr u)
  then show ?thesis by simp
qed

section \<open>When strategies return\<close>

lemma paint_pixel_returns:
  assumes "\<forall>h. no_interrupt (service e h)"
  shows "\<exists>st' b. paint_pixel e st x y color message = (st', Inr b)"
proof (cases "paint_pixel e st x y color message")
  case (Pair st' r)
  show ?thesis
  proof (cases r)
    case (Inl ex)
    with Pair have "paint_pixel e st x y color message = (st', Inl ex)" by simp
    from paint_pixel_raises [OF this] assms show ?thesis
      by (metis no_interrupt.simps(2))
  next
    case (Inr b)
    with Pair show ?thesis by simp
  qed
qed

lemma strategy_draw_line_returns:
  assumes "\<forall>h. no_interrupt (service e h)"
  shows "snd (strategy_draw_line e st sx sy n d c) = Inr ()"
  using assms
proof (rule no_interrupt_returns)
  fix ex assume "snd (strategy_draw_line e st sx sy n d c) = Inl ex"
  then have "draw_line_loop e sx sy d c (range n) st =
      (fst (draw_line_loop e sx sy d c (range n) st), Inl ex)"
    by (simp add: strategy_draw_line_def prod_eq_iff)
  then show "\<exists>h. service e h = Fail ex \<and> \<not> is_Exception ex"
    by (rule draw_line_loop_raises)
qed

lemma strategy_draw_pattern_returns:
  assumes "\<forall>h. no_interrupt (service e h)"
  shows "snd (strategy_draw_pattern e st pattern sx sy c) = Inr ()"
proof (cases "map_of patterns pattern")
  case None
  then show ?thesis by (simp add: strategy_draw_pattern_def)
next
  case (Some offs)
  from assms have "snd (draw_pattern_loop e sx sy c offs st) = Inr ()"
  proof (rule no_interrupt_returns)
    fix ex assume "snd (draw_pattern_loop e sx sy c offs st) = Inl ex"
    then have "draw_pattern_loop e sx sy c offs st =
        (fst (draw_pattern_loop e sx sy c offs st), Inl ex)"
      by (simp add: prod_eq_iff)
    then show "\<exists>h. service e h = Fail ex \<and> \<not> is_Exception ex"
      by (rule draw_pattern_loop_raises)
  qed
  with Some show ?thesis by (simp add: strategy_draw_pattern_def)
qed

lemma strategy_random_chaos_returns:
  assumes "\<forall>h. no_interrupt (service e h)" and "colors st \<noteq> []"
  shows "snd (strategy_random_chaos e st) = Inr ()"
proof -
  have "snd (and_then (paint_pixel e st1 x y color message) (\<lambda>st _. (st, Inr ()))) = Inr ()"
    for st1 x y color message
  proof -
    from paint_pixel_returns [OF assms(1), of st1 x y color message]
    obtain st2 b where "paint_pixel e st1 x y color message = (st2, Inr b)" by blast
    then show ?thesis by (simp add: and_then_def)
  qed
  with assms(2) show ?thesis
    by (simp add: strategy_random_chaos_def randint_def choice_def BOARD_SIZE_def taunts_def
        and_then_def)
qed

lemma has_strD: "has_str kvs k \<Longrightarrow> \<exists>s. dict_get kvs k = Some (JStr s)"
  by (simp add: has_str_def split: option.splits json.splits)

lemma has_intD: "has_int kvs k \<Longrightarrow> \<exists>i. dict_get kvs k = Some (JInt i)"
  by (simp add: has_int_def split: option.splits json.splits)

lemma defend_loop_conforming:
  assumes "conforming ev" and "reclaim_target (my_pixels st) ev = None"
  shows "defend_loop e (ev # rest) st = defend_loop e rest st"
proof (cases ev)
  case (JObj kvs)
  with assms(1) obtain s x y where
    f: "dict_get kvs ''source'' = Some (JStr s)" "dict_get kvs ''x'' = Some (JInt x)"
       "dict_get kvs ''y'' = Some (JInt y)"
    by (auto dest!: has_strD has_intD)
  show ?thesis
  proof (cases "s = ''HUMAN''")
    case True
    with assms(2) JObj f have "(x, y) \<notin> my_pixels st" by (simp split: if_splits)
    with JObj f True show ?thesis by simp
  next
    case False
    with JObj f show ?thesis by simp
  qed
qed (use assms in simp_all)

lemma defend_loop_returns:
  assumes "\<forall>h. no_interrupt (service e h)"
  shows "list_all conforming evs \<Longrightarrow> colors st \<noteq> [] \<Longrightarrow> snd (defend_loop e evs st) = Inr ()"
proof (induction evs arbitrary: st)
  case Nil
  show ?case by simp
next
  case (Cons ev rest)
  then have conf: "conforming ev" "list_all conforming rest" by simp_all
  show ?case
  proof (cases "reclaim_target (my_pixels st) ev")
    case None
    from defend_loop_conforming [OF conf(1) None] Cons.IH [OF conf(2) Cons.prems(2)]
    show ?thesis by simp
  next
    case (Some c)
    obtain x y where c: "c = (x, y)" by (cases c)
    from Some c have tgt: "reclaim_target (my_pixels st) ev = Some (x, y)" by simp
    note step = defend_loop_reclaim [OF tgt, of e rest]
    from choice_returns [OF Cons.prems(2), of e st] obtain color where
      "snd (choice e st (colors st)) = Inr color" ..
    then obtain st1 where ch: "choice e st (colors st) = (st1, Inr color)"
      by (cases "choice e st (colors st)") simp
    from choice_state [OF ch] Cons.prems(2) have c1: "colors st1 \<noteq> []" by simp
    from paint_pixel_returns [OF assms, of st1 x y color "Some ''This is MY territory!''"]
    obtain st2 b where
      pp: "paint_pixel e st1 x y color (Some ''This is MY territory!'') = (st2, Inr b)"
      by blast
    from paint_pixel_colors [OF pp] c1 have "colors st2 \<noteq> []" by simp
    from Cons.IH [OF conf(2) this] step ch pp show ?thesis by simp
  qed
qed

lemma reclaim_target_owned: "reclaim_target owned ev = Some c \<Longrightarrow> c \<in> owned"
  by (cases ev) (auto split: if_splits option.splits Option.bind_splits)

lemma get_recent_events_state:
  assumes "get_recent_events e st = (st', r)"
  shows "trace st' = trace st @ [Get ''/api/events/recent'']" and "my_pixels st' = my_pixels st"
    and "colors st' = colors st"
  using assms
  by (auto simp add: get_recent_events_def Let_def emit_def split: reply.splits option.splits if_splits)

lemma get_board_state_state:
  assumes "get_board_state e st = (st', r)"
  shows "trace st' = trace st @ [Get ''/api/board'']" and "my_pixels st' = my_pixels st"
    and "colors st' = colors st" and "draws st' = draws st" and "name st' = name st"
  using assms
  by (auto simp add: get_board_state_def Let_def emit_def split: reply.splits option.splits if_splits)

section \<open>Startup\<close>

lemma run_state:
  assumes "get_board_state e st = (st1, r1)"
  shows "fst (run fuel e interval st) = st1
       \<or> fst (run fuel e interval st) = fst (run_loop fuel e interval 0 st1)"
  using assms by (simp add: run_def split: sum.splits)

lemma run_trace:
  "\<exists>evs. trace (fst (run fuel e interval st)) = trace st @ Get ''/api/board'' # evs \<and>
     Get ''/api/board'' \<notin> set evs \<and>
     my_pixels (fst (run fuel e interval st)) =
       my_pixels st \<union> acknowledged e (trace st @ [Get ''/api/board'']) evs"
proof -
  obtain st1 r1 where g: "get_board_state e st = (st1, r1)"
    by (cases "get_board_state e st")
  note s1 = get_board_state_state [OF g]
  from run_state [OF g, of fuel interval] show ?thesis
  proof
    assume "fst (run fuel e interval st) = st1"
    with s1 show ?thesis by (intro exI [of _ "[]"]) simp
  next
    assume loop: "fst (run fuel e interval st) = fst (run_loop fuel e interval 0 st1)"
    let ?st' = "fst (run_loop fuel e interval 0 st1)"
    have adv: "advances e st1 ?st'" by (rule advances_run_loop)
    from advancesD(3) [OF adv] advancesD(4) [OF adv] advancesD(5) [OF adv] s1 loop
    show ?thesis by (intro exI [of _ "issued st1 ?st'"]) simp
  qed
qed

lemma advances_grows:
  assumes "advances e st st'"
  shows "grows_by_acknowledged e st st'"
  using advancesD(5) [OF assms] by (auto simp add: grows_by_acknowledged_def)

lemma set_map_filter_reclaim:
  "set (List.map_filter (reclaim_target owned) evs) \<subseteq> owned"
  by (auto simp add: map_filter_def dest: reclaim_target_owned)

lemma grows_get_board_state: "grows_by_acknowledged e st (fst (get_board_state e st))"
proof -
  obtain st1 r1 where g: "get_board_state e st = (st1, r1)"
    by (cases "get_board_state e st")
  from get_board_state_state(1) [OF g] have "issued st st1 = [Get ''/api/board'']"
    by (rule issued_append)
  with get_board_state_state(2) [OF g] g show ?thesis
    by (simp add: grows_by_acknowledged_def)
qed

lemma grows_run: "grows_by_acknowledged e st (fst (run fuel e interval st))"
proof -
  from run_trace [of fuel e interval st] obtain evs where
    t: "trace (fst (run fuel e interval st)) = trace st @ Get ''/api/board'' # evs" and
    o: "my_pixels (fst (run fuel e interval st)) =
       my_pixels st \<union> acknowledged e (trace st @ [Get ''/api/board'']) evs"
    by blast
  from t have "issued st (fst (run fuel e interval st)) = Get ''/api/board'' # evs"
    by (rule issued_append)
  with o show ?thesis by (simp add: grows_by_acknowledged_def)
qed

text \<open>
  Two more facts about the startup test, for completeness: a board that is falsy without
  being none (an empty object, an empty list, zero) stops \<open>run\<close> like none does, and a
  truthy board that is not an object makes the subscript raise a TypeError.
\<close>

lemma run_stops_on_falsy_board:
  assumes "get_board_state e st = (st1, Inr board)" and "\<not> truthy board"
  shows "run fuel e interval st = (st1, Some (Inr ()))"
  using assms by (simp add: run_def)

lemma run_raises_type_error:
  assumes "get_board_state e st = (st1, Inr board)" and "truthy board"
    and "\<forall>kvs. board \<noteq> JObj kvs"
  shows "run fuel e interval st = (st1, Some (Inl TypeError))"
  using assms by (cases board) (simp_all add: run_def)

section \<open>Properties of the pattern library\<close>

text \<open>
  C1, as the code has it: the "heart" pattern consists of exactly 27 distinct relative
  offsets (the rows of the glyph hold 4, 7, 7, 5, 3 and 1 points), and its bounding box is
  7 wide and 6 tall: dx ranges over 0..6 and dy over 0..5.
\<close>

theorem heart_pattern_shape:
  "\<exists>offsets. map_of patterns ''heart'' = Some offsets \<and> length offsets = 27 \<and> distinct offsets
     \<and> Min (set (map fst offsets)) = 0 \<and> Max (set (map fst offsets)) = 6
     \<and> Min (set (map snd offsets)) = 0 \<and> Max (set (map snd offsets)) = 5"
  by (simp add: patterns_def)

text \<open>C1 as stated fails: the "heart" pattern does not have 29 offsets.\<close>

theorem heart_pattern_not_29:
  "map_option length (map_of patterns ''heart'') \<noteq> Some 29"
  by (simp add: patterns_def)

section \<open>Properties of the drawing strategies\<close>

text \<open>
  C6: for every pattern name, anchor and color, every paint request that draw-pattern issues
  is for a coordinate within [0, BOARD_SIZE) in both components; the requests are, in
  order, the offsets of the pattern moved to the anchor with those off the board left out
  (none for an unknown name); skipping raises nothing: the strategy returns normally unless
  the service interrupts the process. At anchor (99,99) "square" yields no request other
  than the one for (99,99).
\<close>

theorem draw_pattern_in_bounds:
  assumes "strategy_draw_pattern e st pattern start_x start_y color = (st', r)"
  shows "list_all in_bounds (paint_coords (issued st st'))
    \<and> prefix (paint_coords (issued st st'))
         (stamp start_x start_y
            (case map_of patterns pattern of None \<Rightarrow> [] | Some offsets \<Rightarrow> offsets))
    \<and> (if r = Inr ()
        then paint_coords (issued st st') =
          stamp start_x start_y
            (case map_of patterns pattern of None \<Rightarrow> [] | Some offsets \<Rightarrow> offsets)
        else \<exists>ex h. r = Inl ex \<and> service e h = Fail ex \<and> \<not> is_Exception ex)
    \<and> (pattern = ''square'' \<and> start_x = 99 \<and> start_y = 99 \<longrightarrow>
          prefix (paint_coords (issued st st')) [(99, 99)])"
proof -
  let ?offs = "case map_of patterns pattern of None \<Rightarrow> [] | Some offsets \<Rightarrow> offsets"
  have main: "\<exists>evs. trace st' = trace st @ evs \<and>
       prefix (paint_coords evs) (stamp start_x start_y ?offs) \<and>
       (r = Inr () \<longrightarrow> paint_coords evs = stamp start_x start_y ?offs)"
  proof (cases "map_of patterns pattern")
    case None
    with assms have "st' = st" "r = Inr ()" by (simp_all add: strategy_draw_pattern_def)
    with None show ?thesis by (simp add: stamp_Nil)
  next
    case (Some offs)
    with assms have "draw_pattern_loop e start_x start_y color offs st = (st', r)"
      by (simp add: strategy_draw_pattern_def)
    from draw_pattern_loop_coords [OF this] Some show ?thesis by simp
  qed
  then obtain evs where
    evs: "trace st' = trace st @ evs" "prefix (paint_coords evs) (stamp start_x start_y ?offs)"
      "r = Inr () \<longrightarrow> paint_coords evs = stamp start_x start_y ?offs"
    by blast
  have iss: "issued st st' = evs" using evs(1) by (rule issued_append)
  have "set (paint_coords evs) \<subseteq> set (stamp start_x start_y ?offs)"
    using evs(2) by (rule set_mono_prefix)
  then have inb: "list_all in_bounds (paint_coords evs)"
    by (auto simp add: list_all_iff stamp_def)
  have raised: "\<exists>ex h. r = Inl ex \<and> service e h = Fail ex \<and> \<not> is_Exception ex" if "r \<noteq> Inr ()"
  proof -
    from that obtain ex where ex: "r = Inl ex" by (cases r) auto
    from that assms have "map_of patterns pattern \<noteq> None"
      by (auto simp add: strategy_draw_pattern_def split: option.splits)
    then obtain offs where "map_of patterns pattern = Some offs" by auto
    with assms ex have "draw_pattern_loop e start_x start_y color offs st = (st', Inl ex)"
      by (simp add: strategy_draw_pattern_def)
    from draw_pattern_loop_raises [OF this] ex show ?thesis by blast
  qed
  have sq: "stamp 99 99 (case map_of patterns ''square'' of None \<Rightarrow> [] | Some offsets \<Rightarrow> offsets)
      = [(99, 99)]"
    by (simp add: patterns_def stamp_def in_bounds_def BOARD_SIZE_def)
  from inb evs raised iss sq show ?thesis by auto
qed

theorem draw_pattern_in_bounds_witness:
  "strategy_draw_pattern (const_env (Resp 200 None)) (init ''ChaosBot'') ''square'' 99 99 ''#FF0000'' =
      ((init ''ChaosBot'')\<lparr> my_pixels := {(99, 99)},
          trace := [Post ''/api/paint'' \<lparr> p_x = 99, p_y = 99, p_color = ''#FF0000'',
                      p_source = ''AI_AGENT:ChaosBot'', p_message = None \<rparr>, Sleep 50] \<rparr>, Inr ())
   \<and> paint_coords (issued (init ''ChaosBot'')
        ((init ''ChaosBot'')\<lparr> my_pixels := {(99, 99)},
          trace := [Post ''/api/paint'' \<lparr> p_x = 99, p_y = 99, p_color = ''#FF0000'',
                      p_source = ''AI_AGENT:ChaosBot'', p_message = None \<rparr>, Sleep 50] \<rparr>)) = [(99, 99)]
   \<and> list_all in_bounds [(99, 99)]"
proof -
  have run: "strategy_draw_pattern (const_env (Resp 200 None)) (init ''ChaosBot'') ''square'' 99 99 ''#FF0000'' =
      ((init ''ChaosBot'')\<lparr> my_pixels := {(99, 99)},
          trace := [Post ''/api/paint'' \<lparr> p_x = 99, p_y = 99, p_color = ''#FF0000'',
                      p_source = ''AI_AGENT:ChaosBot'', p_message = None \<rparr>, Sleep 50] \<rparr>, Inr ())"
    by (simp add: strategy_draw_pattern_def patterns_def const_env_def init_def paint_pixel_def
        emit_def sleep_def BOARD_SIZE_def Let_def)
  from draw_pattern_in_bounds [OF run] run show ?thesis
    by (simp add: patterns_def stamp_def in_bounds_def BOARD_SIZE_def)
qed

text \<open>
  C7: draw-pattern with pattern "cross" and anchor (10,10), in any color, attempts paint
  requests at exactly (11,10), (10,11), (11,11), (12,11), (11,12), in that order, each within
  a 100 x 100 board. (Were the process interrupted during the strategy, the requests issued
  until then are an initial part of that sequence.)
\<close>

theorem draw_cross_at_10_10:
  assumes "strategy_draw_pattern e st ''cross'' 10 10 color = (st', r)"
  shows "prefix (paint_coords (issued st st')) [(11, 10), (10, 11), (11, 11), (12, 11), (11, 12)]
    \<and> ((\<forall>h. no_interrupt (service e h)) \<longrightarrow>
          r = Inr () \<and>
          paint_coords (issued st st') = [(11, 10), (10, 11), (11, 11), (12, 11), (11, 12)])
    \<and> list_all in_bounds [(11, 10), (10, 11), (11, 11), (12, 11), (11, 12)]
    \<and> BOARD_SIZE = 100"
proof -
  have offs: "map_of patterns ''cross'' = Some [(1, 0), (0, 1), (1, 1), (2, 1), (1, 2)]"
    by (simp add: patterns_def)
  have st: "stamp 10 10 [(1, 0), (0, 1), (1, 1), (2, 1), (1, 2)] =
      [(11, 10), (10, 11), (11, 11), (12, 11), (11, 12)]"
    by (simp add: stamp_def in_bounds_def BOARD_SIZE_def)
  from assms offs have loop:
    "draw_pattern_loop e 10 10 color [(1, 0), (0, 1), (1, 1), (2, 1), (1, 2)] st = (st', r)"
    by (simp add: strategy_draw_pattern_def)
  from draw_pattern_loop_coords [OF loop] st obtain evs where
    evs: "trace st' = trace st @ evs"
      "prefix (paint_coords evs) [(11, 10), (10, 11), (11, 11), (12, 11), (11, 12)]"
      "r = Inr () \<longrightarrow> paint_coords evs = [(11, 10), (10, 11), (11, 11), (12, 11), (11, 12)]"
    by auto
  have iss: "issued st st' = evs" using evs(1) by (rule issued_append)
  have ret: "r = Inr ()" if "\<forall>h. no_interrupt (service e h)"
    using that
  proof (rule no_interrupt_returns)
    fix ex assume "r = Inl ex"
    with loop have
      "draw_pattern_loop e 10 10 color [(1, 0), (0, 1), (1, 1), (2, 1), (1, 2)] st = (st', Inl ex)"
      by (simp only:)
    then show "\<exists>h. service e h = Fail ex \<and> \<not> is_Exception ex"
      by (rule draw_pattern_loop_raises)
  qed
  have "list_all in_bounds [(11, 10), (10, 11), (11, 11), (12, 11), (11, 12)]"
    by (simp add: in_bounds_def BOARD_SIZE_def)
  with evs iss ret show ?thesis by (simp add: BOARD_SIZE_def)
qed

theorem draw_cross_at_10_10_witness:
  "(\<forall>h. no_interrupt (service (const_env (Resp 200 None)) h))
   \<and> snd (strategy_draw_pattern (const_env (Resp 200 None)) (init ''ChaosBot'') ''cross'' 10 10 ''#00FF00'')
       = Inr ()
   \<and> paint_coords (issued (init ''ChaosBot'')
        (fst (strategy_draw_pattern (const_env (Resp 200 None)) (init ''ChaosBot'') ''cross'' 10 10 ''#00FF00'')))
       = [(11, 10), (10, 11), (11, 11), (12, 11), (11, 12)]"
proof -
  have quiet: "\<forall>h. no_interrupt (service (const_env (Resp 200 None)) h)"
    by (simp add: const_env_def)
  have run: "strategy_draw_pattern (const_env (Resp 200 None)) (init ''ChaosBot'') ''cross'' 10 10 ''#00FF00'' =
      (fst (strategy_draw_pattern (const_env (Resp 200 None)) (init ''ChaosBot'') ''cross'' 10 10 ''#00FF00''),
       snd (strategy_draw_pattern (const_env (Resp 200 None)) (init ''ChaosBot'') ''cross'' 10 10 ''#00FF00''))"
    by simp
  from draw_cross_at_10_10 [OF run] quiet show ?thesis by simp
qed

text \<open>
  C8: draw-line issues its paint requests at the start moved by 0, 1, ..., length - 1 along
  the chosen axis, in that order: exactly \<open>length\<close> requests for every length \<open>\<ge> 0\<close> (none for
  a negative one); with start (5,5), length 4 and direction "horizontal" these are (5,5),
  (6,5), (7,5), (8,5). (Were the process interrupted during the strategy, the requests
  issued until then are an initial part of that sequence.)
\<close>

theorem draw_line_paints:
  assumes "strategy_draw_line e st start_x start_y length' direction color = (st', r)"
  shows "prefix (paint_coords (issued st st'))
           (map (line_point direction start_x start_y) (range length'))
    \<and> ((\<forall>h. no_interrupt (service e h)) \<longrightarrow>
          r = Inr () \<and>
          paint_coords (issued st st') = map (line_point direction start_x start_y) (range length') \<and>
          length (paint_coords (issued st st')) = nat length')
    \<and> map (line_point ''horizontal'' 5 5) (range 4) = [(5, 5), (6, 5), (7, 5), (8, 5)]"
proof -
  from assms have loop:
    "draw_line_loop e start_x start_y direction color (range length') st = (st', r)"
    by (simp add: strategy_draw_line_def)
  from draw_line_loop_coords [OF loop] obtain evs where
    evs: "trace st' = trace st @ evs"
      "prefix (paint_coords evs) (map (line_point direction start_x start_y) (range length'))"
      "r = Inr () \<longrightarrow>
         paint_coords evs = map (line_point direction start_x start_y) (range length')"
    by blast
  have iss: "issued st st' = evs" using evs(1) by (rule issued_append)
  have ret: "r = Inr ()" if "\<forall>h. no_interrupt (service e h)"
    using that
  proof (rule no_interrupt_returns)
    fix ex assume "r = Inl ex"
    with loop have
      "draw_line_loop e start_x start_y direction color (range length') st = (st', Inl ex)"
      by (simp only:)
    then show "\<exists>h. service e h = Fail ex \<and> \<not> is_Exception ex"
      by (rule draw_line_loop_raises)
  qed
  have len: "length (map (line_point direction start_x start_y) (range length')) = nat length'"
    by (simp add: range_def)
  have "[0..<4] = [0, 1, 2, 3::nat]" by (simp add: upt_rec)
  then have five: "map (line_point ''horizontal'' 5 5) (range 4) = [(5, 5), (6, 5), (7, 5), (8, 5)]"
    by (simp add: range_def line_point_def)
  from evs iss ret len five show ?thesis by auto
qed

theorem draw_line_paints_witness:
  "(\<forall>h. no_interrupt (service (const_env (Fail HTTPError)) h))
   \<and> snd (strategy_draw_line (const_env (Fail HTTPError)) (init ''ChaosBot'') 5 5 4 ''horizontal'' ''#0066FF'')
       = Inr ()
   \<and> paint_coords (issued (init ''ChaosBot'')
        (fst (strategy_draw_line (const_env (Fail HTTPError)) (init ''ChaosBot'') 5 5 4 ''horizontal'' ''#0066FF'')))
       = [(5, 5), (6, 5), (7, 5), (8, 5)]"
proof -
  have quiet: "\<forall>h. no_interrupt (service (const_env (Fail HTTPError)) h)"
    by (simp add: const_env_def)
  have run: "strategy_draw_line (const_env (Fail HTTPError)) (init ''ChaosBot'') 5 5 4 ''horizontal'' ''#0066FF'' =
      (fst (strategy_draw_line (const_env (Fail HTTPError)) (init ''ChaosBot'') 5 5 4 ''horizontal'' ''#0066FF''),
       snd (strategy_draw_line (const_env (Fail HTTPError)) (init ''ChaosBot'') 5 5 4 ''horizontal'' ''#0066FF''))"
    by simp
  from draw_line_paints [OF run] quiet show ?thesis by simp
qed

section \<open>Properties of the remote client\<close>

text \<open>
  C2, as the code has it: for every call to paint with any integer coordinates, color and
  optional message, it sends one request and returns true exactly when the service answers
  with status code 200; it returns false exactly when the service answers with any other
  status or the request fails with an error of class Exception (every transport error); it
  lets an exception through exactly when that exception is an interruption of the process,
  which is not an Exception. So with a service that only answers or fails with transport
  errors, the strategies that call paint return normally.
\<close>

theorem paint_pixel_outcome:
  assumes "paint_pixel e st x y color message = (st', r)"
  shows "issued st st' =
      [Post ''/api/paint'' \<lparr> p_x = x, p_y = y, p_color = color,
         p_source = ''AI_AGENT:'' @ name st,
         p_message = (if message = Some [] then None else message) \<rparr>]
    \<and> (r = Inr True \<longleftrightarrow> (\<exists>body. service e (trace st') = Resp 200 body))
    \<and> (r = Inr False \<longleftrightarrow>
          (\<exists>status_code body. service e (trace st') = Resp status_code body \<and> status_code \<noteq> 200)
          \<or> (\<exists>ex. service e (trace st') = Fail ex \<and> is_Exception ex))
    \<and> (\<forall>ex. r = Inl ex \<longleftrightarrow> service e (trace st') = Fail ex \<and> \<not> is_Exception ex)
    \<and> ((\<forall>h. no_interrupt (service e h)) \<longrightarrow>
          (r = Inr True \<or> r = Inr False)
          \<and> snd (strategy_draw_line e st start_x start_y length' direction color) = Inr ()
          \<and> snd (strategy_draw_pattern e st pattern start_x start_y color) = Inr ()
          \<and> (colors st \<noteq> [] \<longrightarrow> snd (strategy_random_chaos e st) = Inr ()))"
proof -
  let ?body = "\<lparr> p_x = x, p_y = y, p_color = color, p_source = ''AI_AGENT:'' @ name st,
                 p_message = (if message = Some [] then None else message) \<rparr>"
  have tr: "trace st' = trace st @ [Post ''/api/paint'' ?body]"
    using assms by (auto simp add: paint_pixel_def Let_def emit_def split: reply.splits if_splits)
  then have iss: "issued st st' = [Post ''/api/paint'' ?body]" by (rule issued_append)
  have res: "r = (case service e (trace st') of
                    Resp status_code _ \<Rightarrow> Inr (status_code = 200)
                  | Fail ex \<Rightarrow> if is_Exception ex then Inr False else Inl ex)"
    using assms by (auto simp add: paint_pixel_def Let_def emit_def split: reply.splits if_splits)
  have t: "r = Inr True \<longleftrightarrow> (\<exists>body. service e (trace st') = Resp 200 body)"
    unfolding res by (cases "service e (trace st')") auto
  have f: "r = Inr False \<longleftrightarrow>
          (\<exists>status_code body. service e (trace st') = Resp status_code body \<and> status_code \<noteq> 200)
          \<or> (\<exists>ex. service e (trace st') = Fail ex \<and> is_Exception ex)"
    unfolding res by (cases "service e (trace st')") auto
  have x: "\<forall>ex. r = Inl ex \<longleftrightarrow> service e (trace st') = Fail ex \<and> \<not> is_Exception ex"
    unfolding res by (cases "service e (trace st')") auto
  have q: "r = Inr True \<or> r = Inr False" if "\<forall>h. no_interrupt (service e h)"
  proof -
    from that have "no_interrupt (service e (trace st'))" by simp
    then show ?thesis unfolding res by (cases "service e (trace st')") auto
  qed
  from iss t f x q strategy_draw_line_returns [of e] strategy_draw_pattern_returns [of e]
    strategy_random_chaos_returns [of e st]
  show ?thesis by simp
qed

theorem paint_pixel_outcome_witness:
  "(\<forall>h. no_interrupt (service (const_env (Fail HTTPError)) h))
   \<and> colors (init ''ChaosBot'') \<noteq> []
   \<and> paint_pixel (const_env (Fail HTTPError)) (init ''ChaosBot'') 3 4 ''#FF0000'' None =
       ((init ''ChaosBot'')\<lparr> trace := [Post ''/api/paint'' \<lparr> p_x = 3, p_y = 4, p_color = ''#FF0000'',
            p_source = ''AI_AGENT:ChaosBot'', p_message = None \<rparr>] \<rparr>, Inr False)
   \<and> snd (strategy_draw_line (const_env (Fail HTTPError)) (init ''ChaosBot'') 0 0 3 ''vertical'' ''#FF0000'')
       = Inr ()
   \<and> snd (strategy_draw_pattern (const_env (Fail HTTPError)) (init ''ChaosBot'') ''heart'' 0 0 ''#FF0000'')
       = Inr ()
   \<and> snd (strategy_random_chaos (const_env (Fail HTTPError)) (init ''ChaosBot'')) = Inr ()"
proof -
  have quiet: "\<forall>h. no_interrupt (service (const_env (Fail HTTPError)) h)"
    by (simp add: const_env_def)
  have palette: "colors (init ''ChaosBot'') \<noteq> []"
    by (simp add: init_def)
  have run: "paint_pixel (const_env (Fail HTTPError)) (init ''ChaosBot'') 3 4 ''#FF0000'' None =
       ((init ''ChaosBot'')\<lparr> trace := [Post ''/api/paint'' \<lparr> p_x = 3, p_y = 4, p_color = ''#FF0000'',
            p_source = ''AI_AGENT:ChaosBot'', p_message = None \<rparr>] \<rparr>, Inr False)"
    by (simp add: paint_pixel_def const_env_def init_def emit_def Let_def)
  from paint_pixel_outcome [OF run, of 0 0 3 "''vertical''" "''heart''"] quiet palette run
  show ?thesis by simp
qed

text \<open>
  C2 as stated fails: status 201 is in the 200 class, and paint returns false for it.
\<close>

theorem paint_pixel_created_is_false:
  "snd (paint_pixel (const_env (Resp 201 None)) (init ''ChaosBot'') 3 4 ''#FF0000'' None) = Inr False"
  by (simp add: paint_pixel_def const_env_def init_def emit_def Let_def)

text \<open>
  C4, as the code has it: get_recent_events sends one request; it returns an empty sequence
  when the request fails with an error or the body is not JSON, and it returns the events in
  order whenever the service answers with a JSON array, as its contract says: in these
  cases the result is a sequence, never none. Otherwise it returns the decoded body
  unchanged, whatever the status and whatever the document: none exactly when the body is the
  JSON literal null.
\<close>

theorem get_recent_events_result:
  assumes "get_recent_events e st = (st', r)"
  shows "issued st st' = [Get ''/api/events/recent'']
    \<and> (\<forall>ex. service e (trace st') = Fail ex \<and> is_Exception ex \<longrightarrow> r = Inr (JArr []))
    \<and> (\<forall>status_code. service e (trace st') = Resp status_code None \<longrightarrow> r = Inr (JArr []))
    \<and> (\<forall>status_code events. service e (trace st') = Resp status_code (Some (JArr events)) \<longrightarrow>
          r = Inr (JArr events) \<and> iterate (JArr events) = Inr events)
    \<and> (\<forall>status_code doc. service e (trace st') = Resp status_code (Some doc) \<longrightarrow> r = Inr doc)
    \<and> (\<forall>ex. service e (trace st') = Fail ex \<and> \<not> is_Exception ex \<longrightarrow> r = Inl ex)
    \<and> (r = Inr JNull \<longleftrightarrow> (\<exists>status_code. service e (trace st') = Resp status_code (Some JNull)))"
proof -
  have tr: "trace st' = trace st @ [Get ''/api/events/recent'']"
    using assms by (rule get_recent_events_state)
  then have iss: "issued st st' = [Get ''/api/events/recent'']" by (rule issued_append)
  have res: "r = (case service e (trace st') of
                    Resp _ (Some doc) \<Rightarrow> Inr doc
                  | Resp _ None \<Rightarrow> Inr (JArr [])
                  | Fail ex \<Rightarrow> if is_Exception ex then Inr (JArr []) else Inl ex)"
    using assms
    by (auto simp add: get_recent_events_def Let_def emit_def
        split: reply.splits option.splits if_splits)
  have "r = Inr JNull \<longleftrightarrow> (\<exists>status_code. service e (trace st') = Resp status_code (Some JNull))"
    unfolding res by (auto split: reply.splits option.splits)
  moreover have "\<forall>ex. service e (trace st') = Fail ex \<and> is_Exception ex \<longrightarrow> r = Inr (JArr [])"
    unfolding res by simp
  moreover have "\<forall>status_code. service e (trace st') = Resp status_code None \<longrightarrow> r = Inr (JArr [])"
    unfolding res by simp
  moreover have "\<forall>status_code events.
      service e (trace st') = Resp status_code (Some (JArr events)) \<longrightarrow>
        r = Inr (JArr events) \<and> iterate (JArr events) = Inr events"
    unfolding res by simp
  moreover have "\<forall>status_code doc.
      service e (trace st') = Resp status_code (Some doc) \<longrightarrow> r = Inr doc"
    unfolding res by simp
  moreover have "\<forall>ex. service e (trace st') = Fail ex \<and> \<not> is_Exception ex \<longrightarrow> r = Inl ex"
    unfolding res by simp
  ultimately show ?thesis using iss by blast
qed

theorem get_recent_events_result_witness:
  "get_recent_events (const_env (Fail HTTPError)) (init ''ChaosBot'') =
      ((init ''ChaosBot'')\<lparr> trace := [Get ''/api/events/recent''] \<rparr>, Inr (JArr []))
   \<and> service (const_env (Fail HTTPError)) [Get ''/api/events/recent''] = Fail HTTPError
   \<and> is_Exception HTTPError
   \<and> get_recent_events (const_env (Resp 200 (Some (JArr [JObj [(''source'', JStr ''HUMAN'')]]))))
        (init ''ChaosBot'') =
      ((init ''ChaosBot'')\<lparr> trace := [Get ''/api/events/recent''] \<rparr>,
       Inr (JArr [JObj [(''source'', JStr ''HUMAN'')]]))
   \<and> get_recent_events (const_env (Resp 500 (Some (JObj [(''error'', JStr ''down'')]))))
        (init ''ChaosBot'') =
      ((init ''ChaosBot'')\<lparr> trace := [Get ''/api/events/recent''] \<rparr>,
       Inr (JObj [(''error'', JStr ''down'')]))
   \<and> get_recent_events (const_env (Fail KeyboardInterrupt)) (init ''ChaosBot'') =
      ((init ''ChaosBot'')\<lparr> trace := [Get ''/api/events/recent''] \<rparr>, Inl KeyboardInterrupt)"
proof -
  let ?st1 = "(init ''ChaosBot'')\<lparr> trace := [Get ''/api/events/recent''] \<rparr>"
  have run: "get_recent_events (const_env reply) (init ''ChaosBot'') =
      (?st1, snd (get_recent_events (const_env reply) (init ''ChaosBot'')))" for reply
    by (simp add: get_recent_events_def const_env_def init_def emit_def Let_def
        split: reply.splits option.splits)
  have reply: "service (const_env reply) (trace ?st1) = reply" for reply
    by (simp add: const_env_def)
  from get_recent_events_result [OF run [of "Fail HTTPError"]] reply [of "Fail HTTPError"]
  have r1: "snd (get_recent_events (const_env (Fail HTTPError)) (init ''ChaosBot'')) = Inr (JArr [])"
    by simp
  from get_recent_events_result
    [OF run [of "Resp 200 (Some (JArr [JObj [(''source'', JStr ''HUMAN'')]]))"]]
    reply [of "Resp 200 (Some (JArr [JObj [(''source'', JStr ''HUMAN'')]]))"]
  have r2: "snd (get_recent_events (const_env (Resp 200 (Some (JArr [JObj [(''source'', JStr ''HUMAN'')]]))))
        (init ''ChaosBot'')) = Inr (JArr [JObj [(''source'', JStr ''HUMAN'')]])"
    by simp
  from get_recent_events_result
    [OF run [of "Resp 500 (Some (JObj [(''error'', JStr ''down'')]))"]]
    reply [of "Resp 500 (Some (JObj [(''error'', JStr ''down'')]))"]
  have r3: "snd (get_recent_events (const_env (Resp 500 (Some (JObj [(''error'', JStr ''down'')]))))
        (init ''ChaosBot'')) = Inr (JObj [(''error'', JStr ''down'')])"
    by simp
  from get_recent_events_result [OF run [of "Fail KeyboardInterrupt"]]
    reply [of "Fail KeyboardInterrupt"]
  have r4: "snd (get_recent_events (const_env (Fail KeyboardInterrupt)) (init ''ChaosBot'')) =
      Inl KeyboardInterrupt"
    by simp
  have "service (const_env (Fail HTTPError)) [Get ''/api/events/recent''] = Fail HTTPError"
    by (simp add: const_env_def)
  with run [of "Fail HTTPError"] r1
    run [of "Resp 200 (Some (JArr [JObj [(''source'', JStr ''HUMAN'')]]))"] r2
    run [of "Resp 500 (Some (JObj [(''error'', JStr ''down'')]))"] r3
    run [of "Fail KeyboardInterrupt"] r4
  show ?thesis by simp
qed

text \<open>
  C4 as stated fails: when the service answers with the body \<^verbatim>\<open>null\<close>, get_recent_events
  returns none, which cannot be iterated: defend-territory raises a TypeError.
\<close>

theorem get_recent_events_none:
  "snd (get_recent_events (const_env (Resp 200 (Some JNull))) (init ''ChaosBot'')) = Inr JNull
   \<and> snd (strategy_defend_territory (const_env (Resp 200 (Some JNull))) (init ''ChaosBot''))
       = Inl TypeError"
  by (simp add: get_recent_events_def strategy_defend_territory_def and_then_def const_env_def
      init_def emit_def Let_def)

section \<open>Properties of the action loop at startup\<close>

text \<open>
  C3: if the startup call to get_board_state returns none, \<open>run\<close> returns at once: its
  only effect is that one board request, so no iteration of the loop begins, no strategy is
  invoked, no random draw is made and no pixel is owned. Every run asks for the board
  exactly once, whatever happens later. The test is the only gate: a board with a width and a
  height always leads into the loop.
\<close>

theorem run_stops_without_board:
  "(get_board_state e st = (st1, Inr JNull) \<longrightarrow>
      run fuel e interval st = (st1, Some (Inr ())) \<and>
      issued st st1 = [Get ''/api/board''] \<and>
      my_pixels st1 = my_pixels st \<and> draws st1 = draws st)
   \<and> length (filter (\<lambda>ev. ev = Get ''/api/board'') (issued st (fst (run fuel e interval st)))) = 1
   \<and> (get_board_state e st = (st1, Inr (JObj kvs)) \<and>
        dict_get kvs ''width'' = Some w \<and> dict_get kvs ''height'' = Some h \<longrightarrow>
      run fuel e interval st = run_loop fuel e interval 0 st1)"
proof (intro conjI impI)
  assume g: "get_board_state e st = (st1, Inr JNull)"
  then show "run fuel e interval st = (st1, Some (Inr ()))" by (simp add: run_def)
  from get_board_state_state(1) [OF g] show "issued st st1 = [Get ''/api/board'']"
    by (rule issued_append)
  from get_board_state_state [OF g] show "my_pixels st1 = my_pixels st" "draws st1 = draws st"
    by simp_all
next
  from run_trace [of fuel e interval st] obtain evs where
    "trace (fst (run fuel e interval st)) = trace st @ Get ''/api/board'' # evs"
    "Get ''/api/board'' \<notin> set evs"
    by blast
  then have "issued st (fst (run fuel e interval st)) = Get ''/api/board'' # evs"
    and "filter (\<lambda>ev. ev = Get ''/api/board'') evs = []"
    by (auto simp add: issued_def filter_empty_conv)
  then show "length (filter (\<lambda>ev. ev = Get ''/api/board'')
      (issued st (fst (run fuel e interval st)))) = 1"
    by simp
next
  assume "get_board_state e st = (st1, Inr (JObj kvs)) \<and>
          dict_get kvs ''width'' = Some w \<and> dict_get kvs ''height'' = Some h"
  moreover from this have "kvs \<noteq> []" by (auto simp add: dict_get_def)
  ultimately show "run fuel e interval st = run_loop fuel e interval 0 st1"
    by (simp add: run_def)
qed

theorem run_stops_without_board_witness:
  "get_board_state (const_env (Fail HTTPError)) (init ''ChaosBot'') =
      ((init ''ChaosBot'')\<lparr> trace := [Get ''/api/board''] \<rparr>, Inr JNull)
   \<and> run 7 (const_env (Fail HTTPError)) 1500 (init ''ChaosBot'') =
      ((init ''ChaosBot'')\<lparr> trace := [Get ''/api/board''] \<rparr>, Some (Inr ()))
   \<and> get_board_state
        (const_env (Resp 200 (Some (JObj [(''width'', JInt 100), (''height'', JInt 100)]))))
        (init ''ChaosBot'') =
      ((init ''ChaosBot'')\<lparr> trace := [Get ''/api/board''] \<rparr>,
       Inr (JObj [(''width'', JInt 100), (''height'', JInt 100)]))
   \<and> run 7 (const_env (Resp 200 (Some (JObj [(''width'', JInt 100), (''height'', JInt 100)]))))
        1500 (init ''ChaosBot'') =
      run_loop 7 (const_env (Resp 200 (Some (JObj [(''width'', JInt 100), (''height'', JInt 100)]))))
        1500 0 ((init ''ChaosBot'')\<lparr> trace := [Get ''/api/board''] \<rparr>)"
proof -
  have g1: "get_board_state (const_env (Fail HTTPError)) (init ''ChaosBot'') =
      ((init ''ChaosBot'')\<lparr> trace := [Get ''/api/board''] \<rparr>, Inr JNull)"
    by (simp add: get_board_state_def const_env_def init_def emit_def Let_def)
  have g2: "get_board_state
        (const_env (Resp 200 (Some (JObj [(''width'', JInt 100), (''height'', JInt 100)]))))
        (init ''ChaosBot'') =
      ((init ''ChaosBot'')\<lparr> trace := [Get ''/api/board''] \<rparr>,
       Inr (JObj [(''width'', JInt 100), (''height'', JInt 100)]))"
    by (simp add: get_board_state_def const_env_def init_def emit_def Let_def)
  have keys: "dict_get [(''width'', JInt 100), (''height'', JInt 100)] ''width'' = Some (JInt 100)"
    "dict_get [(''width'', JInt 100), (''height'', JInt 100)] ''height'' = Some (JInt 100)"
    by (simp_all add: dict_get_def)
  from run_stops_without_board [of "const_env (Fail HTTPError)" "init ''ChaosBot''"
      "(init ''ChaosBot'')\<lparr> trace := [Get ''/api/board''] \<rparr>" 7 1500] g1
  have r1: "run 7 (const_env (Fail HTTPError)) 1500 (init ''ChaosBot'') =
      ((init ''ChaosBot'')\<lparr> trace := [Get ''/api/board''] \<rparr>, Some (Inr ()))"
    by blast
  from run_stops_without_board
      [of "const_env (Resp 200 (Some (JObj [(''width'', JInt 100), (''height'', JInt 100)])))"
        "init ''ChaosBot''" "(init ''ChaosBot'')\<lparr> trace := [Get ''/api/board''] \<rparr>" 7 1500
        "[(''width'', JInt 100), (''height'', JInt 100)]" "JInt 100" "JInt 100"] g2 keys
  have r2: "run 7 (const_env (Resp 200 (Some (JObj [(''width'', JInt 100), (''height'', JInt 100)]))))
        1500 (init ''ChaosBot'') =
      run_loop 7 (const_env (Resp 200 (Some (JObj [(''width'', JInt 100), (''height'', JInt 100)]))))
        1500 0 ((init ''ChaosBot'')\<lparr> trace := [Get ''/api/board''] \<rparr>)"
    by blast
  from g1 r1 g2 r2 show ?thesis by (simp only: simp_thms)
qed

text \<open>
  C10, as the code has it: if the startup call to get_board_state returns a truthy JSON
  object that lacks the key "width" or the key "height", \<open>run\<close> ends with a KeyError (for
  the first key that is missing) that nothing catches; if it returns a truthy value that is not
  an object (a non-empty list or string, a number other than zero, true), \<open>run\<close> ends with a
  TypeError at the same place. In both cases the only effect is the board request: the loop
  and its error recovery never begin, so the malformed response is not treated as a startup
  failure.
\<close>

theorem run_raises_on_malformed_board:
  assumes "get_board_state e st = (st1, Inr board)" and "truthy board"
  shows "(\<forall>kvs. board = JObj kvs \<and>
              (dict_get kvs ''width'' = None \<or> dict_get kvs ''height'' = None) \<longrightarrow>
            run fuel e interval st =
              (st1, Some (Inl (KeyError
                 (if dict_get kvs ''width'' = None then ''width'' else ''height'')))))
    \<and> ((\<forall>kvs. board \<noteq> JObj kvs) \<longrightarrow> run fuel e interval st = (st1, Some (Inl TypeError)))
    \<and> issued st st1 = [Get ''/api/board'']
    \<and> my_pixels st1 = my_pixels st"
proof -
  from get_board_state_state(1) [OF assms(1)] have iss: "issued st st1 = [Get ''/api/board'']"
    by (rule issued_append)
  from get_board_state_state(2) [OF assms(1)] have own: "my_pixels st1 = my_pixels st" .
  have key: "run fuel e interval st =
      (st1, Some (Inl (KeyError (if dict_get kvs ''width'' = None then ''width'' else ''height''))))"
    if "board = JObj kvs" and "dict_get kvs ''width'' = None \<or> dict_get kvs ''height'' = None"
    for kvs
    using that assms by (auto simp add: run_def split: option.splits)
  have type: "run fuel e interval st = (st1, Some (Inl TypeError))" if "\<forall>kvs. board \<noteq> JObj kvs"
    using assms that by (rule run_raises_type_error)
  from iss own key type show ?thesis by blast
qed

theorem run_raises_on_malformed_board_witness:
  "get_board_state (const_env (Resp 200 (Some (JObj [(''status'', JStr ''ok'')])))) (init ''ChaosBot'') =
      ((init ''ChaosBot'')\<lparr> trace := [Get ''/api/board''] \<rparr>, Inr (JObj [(''status'', JStr ''ok'')]))
   \<and> truthy (JObj [(''status'', JStr ''ok'')])
   \<and> dict_get [(''status'', JStr ''ok'')] ''width'' = None
   \<and> run 7 (const_env (Resp 200 (Some (JObj [(''status'', JStr ''ok'')])))) 1500 (init ''ChaosBot'') =
      ((init ''ChaosBot'')\<lparr> trace := [Get ''/api/board''] \<rparr>, Some (Inl (KeyError ''width'')))
   \<and> get_board_state (const_env (Resp 200 (Some (JStr ''ok'')))) (init ''ChaosBot'') =
      ((init ''ChaosBot'')\<lparr> trace := [Get ''/api/board''] \<rparr>, Inr (JStr ''ok''))
   \<and> truthy (JStr ''ok'')
   \<and> run 7 (const_env (Resp 200 (Some (JStr ''ok'')))) 1500 (init ''ChaosBot'') =
      ((init ''ChaosBot'')\<lparr> trace := [Get ''/api/board''] \<rparr>, Some (Inl TypeError))"
proof -
  have g1: "get_board_state (const_env (Resp 200 (Some (JObj [(''status'', JStr ''ok'')]))))
      (init ''ChaosBot'') =
      ((init ''ChaosBot'')\<lparr> trace := [Get ''/api/board''] \<rparr>, Inr (JObj [(''status'', JStr ''ok'')]))"
    by (simp add: get_board_state_def const_env_def init_def emit_def Let_def)
  have t1: "truthy (JObj [(''status'', JStr ''ok'')])" by simp
  have k: "dict_get [(''status'', JStr ''ok'')] ''width'' = None" by (simp add: dict_get_def)
  have g2: "get_board_state (const_env (Resp 200 (Some (JStr ''ok'')))) (init ''ChaosBot'') =
      ((init ''ChaosBot'')\<lparr> trace := [Get ''/api/board''] \<rparr>, Inr (JStr ''ok''))"
    by (simp add: get_board_state_def const_env_def init_def emit_def Let_def)
  have t2: "truthy (JStr ''ok'')" by simp
  from run_raises_on_malformed_board [OF g1 t1, of 7 1500] k
  have r1: "run 7 (const_env (Resp 200 (Some (JObj [(''status'', JStr ''ok'')])))) 1500
      (init ''ChaosBot'') =
      ((init ''ChaosBot'')\<lparr> trace := [Get ''/api/board''] \<rparr>, Some (Inl (KeyError ''width'')))"
    by simp
  from run_raises_on_malformed_board [OF g2 t2, of 7 1500]
  have r2: "run 7 (const_env (Resp 200 (Some (JStr ''ok'')))) 1500 (init ''ChaosBot'') =
      ((init ''ChaosBot'')\<lparr> trace := [Get ''/api/board''] \<rparr>, Some (Inl TypeError))"
    by simp
  from g1 t1 k r1 g2 t2 r2 show ?thesis by (simp only: simp_thms)
qed

text \<open>
  C10 as stated fails: the list \<^verbatim>\<open>[1]\<close> is a truthy value, not none, that has no key "width"
  and no key "height", and \<open>run\<close> ends with a TypeError for it, not with a KeyError.
\<close>

theorem run_type_error_on_list_board:
  "get_board_state (const_env (Resp 200 (Some (JArr [JInt 1])))) (init ''ChaosBot'') =
      ((init ''ChaosBot'')\<lparr> trace := [Get ''/api/board''] \<rparr>, Inr (JArr [JInt 1]))
   \<and> truthy (JArr [JInt 1]) \<and> JArr [JInt 1] \<noteq> JNull
   \<and> run 7 (const_env (Resp 200 (Some (JArr [JInt 1])))) 1500 (init ''ChaosBot'') =
      ((init ''ChaosBot'')\<lparr> trace := [Get ''/api/board''] \<rparr>, Some (Inl TypeError))
   \<and> TypeError \<noteq> KeyError ''width'' \<and> TypeError \<noteq> KeyError ''height''"
  by (simp add: run_def get_board_state_def const_env_def init_def emit_def Let_def)

section \<open>Properties of the defence of territory\<close>

text \<open>
  C5: for every sequence of events returned by the remote client and every set of owned
  pixels, the paint requests that defend-territory issues are, in the order of the events,
  for the events whose source is the human actor and whose coordinate is an owned pixel, and
  for no others: the requests are an initial part of that sequence of coordinates, and all
  of it when the strategy returns, as it does whenever the events are as the service's
  contract describes them, the palette is not empty and the process is not interrupted. A
  coordinate that is not owned gets no request, and the owned pixels stay as they are.
\<close>

theorem defend_reclaims_owned_pixels:
  assumes "get_recent_events e st = (st0, Inr (JArr events))"
    and "strategy_defend_territory e st = (st', r)"
  shows "prefix (paint_coords (issued st st'))
           (List.map_filter (reclaim_target (my_pixels st)) events)
    \<and> set (paint_coords (issued st st')) \<subseteq> my_pixels st
    \<and> my_pixels st' = my_pixels st
    \<and> (r = Inr () \<longrightarrow>
          paint_coords (issued st st') = List.map_filter (reclaim_target (my_pixels st)) events)
    \<and> (list_all conforming events \<and> colors st \<noteq> [] \<and> (\<forall>h. no_interrupt (service e h)) \<longrightarrow>
          r = Inr ())"
proof -
  note s0 = get_recent_events_state [OF assms(1)]
  from assms have loop: "defend_loop e events st0 = (st', r)"
    by (simp add: strategy_defend_territory_def and_then_def)
  from defend_loop_coords [OF loop] s0 obtain new where
    own: "my_pixels st' = my_pixels st" and
    tr: "trace st' = trace st @ Get ''/api/events/recent'' # new" and
    pre: "prefix (paint_coords new) (List.map_filter (reclaim_target (my_pixels st)) events)" and
    all: "r = Inr () \<longrightarrow>
      paint_coords new = List.map_filter (reclaim_target (my_pixels st)) events"
    by auto
  from tr have "issued st st' = Get ''/api/events/recent'' # new" by (rule issued_append)
  then have pc: "paint_coords (issued st st') = paint_coords new" by simp
  from pre have "set (paint_coords new) \<subseteq>
      set (List.map_filter (reclaim_target (my_pixels st)) events)"
    by (rule set_mono_prefix)
  with set_map_filter_reclaim have sub: "set (paint_coords new) \<subseteq> my_pixels st"
    by blast
  have ret: "r = Inr ()"
    if "list_all conforming events \<and> colors st \<noteq> [] \<and> (\<forall>h. no_interrupt (service e h))"
  proof -
    from that s0 have "\<forall>h. no_interrupt (service e h)" "list_all conforming events"
      "colors st0 \<noteq> []"
      by simp_all
    from defend_loop_returns [OF this] loop show ?thesis by simp
  qed
  from pc own pre all sub ret show ?thesis by simp
qed

theorem defend_reclaims_owned_pixels_witness:
  "get_recent_events
      (scripted_env (JArr
        [JObj [(''source'', JStr ''HUMAN''), (''x'', JInt 3), (''y'', JInt 4)],
         JObj [(''source'', JStr ''HUMAN''), (''x'', JInt 9), (''y'', JInt 9)],
         JObj [(''source'', JStr ''AI_AGENT:Rival''), (''x'', JInt 3), (''y'', JInt 4)]]))
      ((init ''ChaosBot'')\<lparr> my_pixels := {(3, 4)} \<rparr>) =
     ((init ''ChaosBot'')\<lparr> my_pixels := {(3, 4)}, trace := [Get ''/api/events/recent''] \<rparr>,
      Inr (JArr
        [JObj [(''source'', JStr ''HUMAN''), (''x'', JInt 3), (''y'', JInt 4)],
         JObj [(''source'', JStr ''HUMAN''), (''x'', JInt 9), (''y'', JInt 9)],
         JObj [(''source'', JStr ''AI_AGENT:Rival''), (''x'', JInt 3), (''y'', JInt 4)]]))
   \<and> snd (strategy_defend_territory
      (scripted_env (JArr
        [JObj [(''source'', JStr ''HUMAN''), (''x'', JInt 3), (''y'', JInt 4)],
         JObj [(''source'', JStr ''HUMAN''), (''x'', JInt 9), (''y'', JInt 9)],
         JObj [(''source'', JStr ''AI_AGENT:Rival''), (''x'', JInt 3), (''y'', JInt 4)]]))
      ((init ''ChaosBot'')\<lparr> my_pixels := {(3, 4)} \<rparr>)) = Inr ()
   \<and> paint_coords (issued ((init ''ChaosBot'')\<lparr> my_pixels := {(3, 4)} \<rparr>)
       (fst (strategy_defend_territory
          (scripted_env (JArr
            [JObj [(''source'', JStr ''HUMAN''), (''x'', JInt 3), (''y'', JInt 4)],
             JObj [(''source'', JStr ''HUMAN''), (''x'', JInt 9), (''y'', JInt 9)],
             JObj [(''source'', JStr ''AI_AGENT:Rival''), (''x'', JInt 3), (''y'', JInt 4)]]))
          ((init ''ChaosBot'')\<lparr> my_pixels := {(3, 4)} \<rparr>)))) = [(3, 4)]"
proof -
  let ?events = "[JObj [(''source'', JStr ''HUMAN''), (''x'', JInt 3), (''y'', JInt 4)],
         JObj [(''source'', JStr ''HUMAN''), (''x'', JInt 9), (''y'', JInt 9)],
         JObj [(''source'', JStr ''AI_AGENT:Rival''), (''x'', JInt 3), (''y'', JInt 4)]]"
  let ?e = "scripted_env (JArr ?events)"
  let ?st = "(init ''ChaosBot'')\<lparr> my_pixels := {(3, 4)} \<rparr>"
  have g: "get_recent_events ?e ?st =
      ((init ''ChaosBot'')\<lparr> my_pixels := {(3, 4)}, trace := [Get ''/api/events/recent''] \<rparr>,
       Inr (JArr ?events))"
    by (simp add: get_recent_events_def scripted_env_def init_def emit_def Let_def)
  have d: "strategy_defend_territory ?e ?st =
      (fst (strategy_defend_territory ?e ?st), snd (strategy_defend_territory ?e ?st))"
    by simp
  have quiet: "\<forall>h. no_interrupt (service ?e h)"
    by (simp add: scripted_env_def split: list.splits event.splits)
  have conf: "list_all conforming ?events"
    by (simp add: has_str_def has_int_def dict_get_def)
  have palette: "colors ?st \<noteq> []" by (simp add: init_def)
  have tgt: "List.map_filter (reclaim_target (my_pixels ?st)) ?events = [(3, 4)]"
    by (simp add: map_filter_simps dict_get_def)
  from defend_reclaims_owned_pixels [OF g d] quiet conf palette tgt g
  show ?thesis by simp
qed

section \<open>Properties of the owned pixels\<close>

text \<open>
  C9: the set of owned pixels grows monotonically. A paint call adds its coordinate exactly
  when it succeeds; over every operation of the agent (the three calls of the remote client,
  the four strategies, one iteration of the loop and a whole run of any length) the set after
  the operation contains the set before it, and is that set together with the coordinates of
  the paint requests that the operation issued and the service acknowledged.
\<close>

theorem owned_pixels_grow:
  "my_pixels (fst (paint_pixel e st x y color message)) =
     (if snd (paint_pixel e st x y color message) = Inr True
      then insert (x, y) (my_pixels st) else my_pixels st)
   \<and> grows_by_acknowledged e st (fst (paint_pixel e st x y color message))
   \<and> grows_by_acknowledged e st (fst (get_board_state e st))
   \<and> grows_by_acknowledged e st (fst (get_recent_events e st))
   \<and> grows_by_acknowledged e st (fst (strategy_random_chaos e st))
   \<and> grows_by_acknowledged e st (fst (strategy_draw_line e st start_x start_y length' direction color))
   \<and> grows_by_acknowledged e st (fst (strategy_defend_territory e st))
   \<and> grows_by_acknowledged e st (fst (strategy_draw_pattern e st pattern start_x start_y color))
   \<and> grows_by_acknowledged e st (fst (tick e interval st))
   \<and> grows_by_acknowledged e st (fst (run fuel e interval st))"
proof -
  have "paint_pixel e st x y color message =
      (fst (paint_pixel e st x y color message), snd (paint_pixel e st x y color message))"
    by simp
  then have "my_pixels (fst (paint_pixel e st x y color message)) =
     (if snd (paint_pixel e st x y color message) = Inr True
      then insert (x, y) (my_pixels st) else my_pixels st)"
    by (rule paint_pixel_owned)
  then show ?thesis
    by (simp only: simp_thms grows_get_board_state grows_run
        advances_grows [OF advances_paint_pixel] advances_grows [OF advances_get_recent_events]
        advances_grows [OF advances_strategy_random_chaos]
        advances_grows [OF advances_strategy_draw_line]
        advances_grows [OF advances_strategy_defend_territory]
        advances_grows [OF advances_strategy_draw_pattern]
        advances_grows [OF advances_tick])
qed

end
